theory Spec2Isabelle
  imports Complex_Main "HOL-Library.Sublist"
begin

section \<open>STUN client: data model\<close>

text \<open>
  The development follows the latest revision of the class \<open>StunClient\<close>
  (the one with \<open>performSpeedTest\<close>). Interfaces become records; the free-text
  NAT type labels stay strings, as in the source.
\<close>

record StunServer =
  url :: string
  host :: string
  server_port :: int
  name :: string

text \<open>
  The object \<open>{ ip, port }\<close> that a probe stores, and its extension
  \<open>{ ip, port, server }\<close>, the element type of \<open>NATTypeResult.mappedAddresses\<close>.
  Ports come out of \<open>parseInt\<close>, so they are integers.
\<close>

record ip_port =
  ip :: string
  port :: int

record address = ip_port +
  server :: string

record NATTypeResult =
  type :: string
  mappedAddresses :: "address list"

datatype protocol = UDP | TCP

datatype ip_version = IPv4 | IPv6

section \<open>NAT classification\<close>

text \<open>
  \<open>detectNATTypeFromAddresses(addresses, protocol, ipVersion)\<close>; the field
  \<open>this.stunServers\<close> is the last parameter. \<open>null\<close> is \<open>None\<close>. The two
  \<open>every\<close> tests compare against the first element, which exists after the
  emptiness test.
\<close>

fun detectNATTypeFromAddresses ::
  "address list \<Rightarrow> protocol \<Rightarrow> ip_version \<Rightarrow> StunServer list \<Rightarrow> NATTypeResult option" where
  "detectNATTypeFromAddresses [] prot ver stunServers = None"
| "detectNATTypeFromAddresses (a # as) prot ver stunServers =
     (let addresses = a # as;
          firstIP = ip a;
          allSameIP = list_all (\<lambda>addr. ip addr = firstIP) addresses
      in if \<not> allSameIP then Some \<lparr>type = ''Unknown'', mappedAddresses = addresses\<rparr>
         else
           let firstPort = port a;
               allSamePort = list_all (\<lambda>addr. port addr = firstPort) addresses;
               natType =
                 (if allSamePort
                  then (if length addresses = length stunServers
                        then ''Full Cone or Restricted Cone''
                        else ''Restricted Cone'')
                  else ''Symmetric NAT'')
           in Some \<lparr>type = natType, mappedAddresses = addresses\<rparr>)"

section \<open>String primitives\<close>

text \<open>
  \<open>String.prototype.includes\<close> (here \<open>includes_str\<close>), \<open>startsWith\<close> and \<open>split\<close> at a space.
  Candidate lines are ASCII, so a string is a list of 8-bit code units.
\<close>

fun includes_str :: "string \<Rightarrow> string \<Rightarrow> bool" where
  "includes_str [] sub = (sub = [])"
| "includes_str (c # cs) sub = (prefix sub (c # cs) \<or> includes_str cs sub)"

definition startsWith :: "string \<Rightarrow> string \<Rightarrow> bool" where
  "startsWith s p = prefix p s"

text \<open>
  \<open>split_from cur s\<close> splits \<open>s\<close> at every space; \<open>cur\<close> holds the characters
  of the piece being read, last one first. As in JavaScript, the result is never empty
  and two adjacent spaces give an empty piece.
\<close>

fun split_from :: "string \<Rightarrow> string \<Rightarrow> string list" where
  "split_from cur [] = [rev cur]"
| "split_from cur (c # cs) =
     (if c = CHR '' '' then rev cur # split_from [] cs else split_from (c # cur) cs)"

definition split_space :: "string \<Rightarrow> string list" where
  "split_space s = split_from [] s"

text \<open>
  \<open>parseInt(s, 10)\<close>: leading white space is skipped, one sign is read, then the
  longest run of decimal digits; \<open>NaN\<close> (no digit) is \<open>None\<close>. The value is the exact
  integer (a JavaScript number loses precision above \<open>2^53\<close>; ports are far below).
\<close>

definition isWhiteSpace :: "char \<Rightarrow> bool" where
  "isWhiteSpace c = (c \<in> set [CHR 0x09, CHR 0x0A, CHR 0x0B, CHR 0x0C, CHR 0x0D, CHR 0x20, CHR 0xA0])"

definition isDigit :: "char \<Rightarrow> bool" where
  "isDigit c = (c \<in> set ''0123456789'')"

fun digitsValue :: "int \<Rightarrow> string \<Rightarrow> int" where
  "digitsValue acc [] = acc"
| "digitsValue acc (c # cs) = digitsValue (10 * acc + (of_char c - 48)) cs"

definition parseInt :: "string \<Rightarrow> int option" where
  "parseInt s =
     (let t = dropWhile isWhiteSpace s;
          negative = (case t of [] \<Rightarrow> False | c # _ \<Rightarrow> c = CHR ''-'');
          u = (case t of [] \<Rightarrow> [] | c # r \<Rightarrow> if c = CHR ''-'' \<or> c = CHR ''+'' then r else t);
          ds = takeWhile isDigit u
      in if ds = [] then None
         else Some (if negative then - digitsValue 0 ds else digitsValue 0 ds))"

section \<open>Rendezvous probe: \<open>getMappedAddress\<close>\<close>

text \<open>
  The probe fills the object \<open>addresses\<close>, four slots
  \<open>ipv4.udp\<close>, \<open>ipv4.tcp\<close>, \<open>ipv6.udp\<close>, \<open>ipv6.tcp\<close>, each \<open>{ ip, port } | null\<close>.
\<close>

record family_slots =
  udp :: "ip_port option"
  tcp :: "ip_port option"

record mapped_addresses =
  ipv4 :: family_slots
  ipv6 :: family_slots

definition no_mapping :: mapped_addresses where
  "no_mapping = \<lparr>ipv4 = \<lparr>udp = None, tcp = None\<rparr>, ipv6 = \<lparr>udp = None, tcp = None\<rparr>\<rparr>"

definition isIPv6 :: "string \<Rightarrow> bool" where
  "isIPv6 a = includes_str a '':''"

text \<open>The two tests of \<open>onicecandidate\<close> on the candidate line.\<close>

definition isUdpSrflx :: "string \<Rightarrow> bool" where
  "isUdpSrflx candidate =
     (includes_str candidate ''typ srflx'' \<and> includes_str candidate ''UDP''
      \<and> \<not> includes_str candidate ''TCP'')"

definition isTcpSrflx :: "string \<Rightarrow> bool" where
  "isTcpSrflx candidate =
     (includes_str candidate ''typ srflx'' \<and> includes_str candidate ''TCP'')"

text \<open>
  The parsing block that both branches share: \<open>parts = candidate.split(' ')\<close>,
  at least six parts, \<open>ip = parts[4]\<close>, \<open>port = parseInt(parts[5], 10)\<close>, and
  the validity test \<open>ip && !isNaN(port) && port > 0\<close>.
\<close>

definition parse_candidate :: "string \<Rightarrow> ip_port option" where
  "parse_candidate candidate =
     (let parts = split_space candidate
      in if length parts \<ge> 6
         then (case parseInt (parts ! 5) of
                 None \<Rightarrow> None
               | Some p \<Rightarrow>
                   if parts ! 4 \<noteq> [] \<and> p > 0 then Some \<lparr>ip = parts ! 4, port = p\<rparr> else None)
         else None)"

text \<open>
  The body of \<open>onicecandidate\<close> for a non-null candidate: the only effect is an
  assignment to one slot of \<open>addresses\<close>; the handler then returns and the probe goes
  on listening.
\<close>

definition record_candidate :: "mapped_addresses \<Rightarrow> string \<Rightarrow> mapped_addresses" where
  "record_candidate addresses candidate =
     (if isUdpSrflx candidate then
        (case parse_candidate candidate of
           None \<Rightarrow> addresses
         | Some a \<Rightarrow>
             if isIPv6 (ip a)
             then addresses\<lparr>ipv6 := (ipv6 addresses)\<lparr>udp := Some a\<rparr>\<rparr>
             else addresses\<lparr>ipv4 := (ipv4 addresses)\<lparr>udp := Some a\<rparr>\<rparr>)
      else if isTcpSrflx candidate then
        (case parse_candidate candidate of
           None \<Rightarrow> addresses
         | Some a \<Rightarrow>
             if isIPv6 (ip a)
             then addresses\<lparr>ipv6 := (ipv6 addresses)\<lparr>tcp := Some a\<rparr>\<rparr>
             else addresses\<lparr>ipv4 := (ipv4 addresses)\<lparr>tcp := Some a\<rparr>\<rparr>)
      else addresses)"

text \<open>
  A promise that is awaited either fulfils with a value or rejects (the constructor of
  the peer connection can throw inside the executor).
\<close>

datatype 'a settled = Fulfilled 'a | Rejected

text \<open>
  The executor of the promise sets the timer, then calls
  \<open>new RTCPeerConnection\<close>, then \<open>pc.createDataChannel\<close>, then makes the offer
  and installs the handler of \<open>icecandidate\<close>. It has no \<open>try\<close>: if the
  constructor or \<open>createDataChannel\<close> throws, the executor stops there and the
  promise rejects. \<open>createOffer\<close> reports a failure through its promise, which is
  the signal \<open>OfferRejected\<close> below.
\<close>

datatype construction = Constructed | ConstructorThrows | DataChannelThrows

text \<open>
  The closure state of one probe. \<open>timeout_set\<close> stands for \<open>timeout !== null\<close>
  and \<open>pc_open\<close> for \<open>pc !== null\<close>. The promise is resolved with the object
  \<open>addresses\<close> itself. \<open>resolved_at\<close> and \<open>rejected\<close> are not variables of the
  source: \<open>resolved_at\<close> keeps the time of the call of \<open>resolve\<close>, in milliseconds
  after the start of the probe, and \<open>rejected\<close> tells that the executor threw, which
  settles the promise at the start; a later \<open>resolve\<close> does not change a rejected
  promise.
\<close>

record probe_state =
  resolved :: bool
  timeout_set :: bool
  pc_open :: bool
  addresses :: mapped_addresses
  resolved_at :: "nat option"
  rejected :: bool

text \<open>The state when the executor has run to its end.\<close>

definition probe_init :: probe_state where
  "probe_init = \<lparr>resolved = False, timeout_set = True, pc_open = True,
                 addresses = no_mapping, resolved_at = None, rejected = False\<rparr>"

text \<open>
  The state in which the executor leaves the closure. The timer is set before the
  first call that can throw; \<open>pc\<close> is still null when the constructor throws and
  is assigned when \<open>createDataChannel\<close> throws.
\<close>

definition executor :: "construction \<Rightarrow> probe_state" where
  "executor c =
     (case c of
        Constructed \<Rightarrow> probe_init
      | ConstructorThrows \<Rightarrow> probe_init\<lparr>pc_open := False, rejected := True\<rparr>
      | DataChannelThrows \<Rightarrow> probe_init\<lparr>rejected := True\<rparr>)"

text \<open>\<open>finish\<close>, with \<open>cleanup\<close> inlined: clear the timer, close the connection.\<close>

definition finish :: "nat \<Rightarrow> probe_state \<Rightarrow> probe_state" where
  "finish now st =
     (if resolved st then st
      else st\<lparr>resolved := True, timeout_set := False, pc_open := False,
              resolved_at := Some now\<rparr>)"

text \<open>\<open>pc.onicecandidate\<close>; the argument is \<open>event.candidate\<close>, \<open>None\<close> when it is null.\<close>

definition onicecandidate :: "nat \<Rightarrow> probe_state \<Rightarrow> string option \<Rightarrow> probe_state" where
  "onicecandidate now st candidate =
     (case candidate of
        Some c \<Rightarrow> st\<lparr>addresses := record_candidate (addresses st) c\<rparr>
      | None \<Rightarrow> finish now st)"

text \<open>
  What the transport does to a probe: it fires \<open>icecandidate\<close> events, or rejects the
  offer (the \<open>catch\<close> of \<open>createOffer\<close>). A schedule lists these signals with
  their times in milliseconds after the start, in the order of delivery. A closed
  connection fires no event.
\<close>

datatype signal = IceCandidate "string option" | OfferRejected

type_synonym schedule = "(nat \<times> signal) list"

fun deliver :: "probe_state \<Rightarrow> nat \<times> signal \<Rightarrow> probe_state" where
  "deliver st (now, IceCandidate c) = (if pc_open st then onicecandidate now st c else st)"
| "deliver st (now, OfferRejected) = finish now st"

text \<open>
  One run of \<open>getMappedAddress\<close>: the executor, the signals before 5000 ms, then
  the callback of \<open>setTimeout(..., 5000)\<close> unless \<open>cleanup\<close> has cleared it, then
  the rest. An executor that threw has made no offer and installed no handler, so
  that no signal of the schedule reaches the probe; its timer still fires.
\<close>

definition before_timeout :: "nat \<times> signal \<Rightarrow> bool" where
  "before_timeout e = (fst e < 5000)"

definition getMappedAddress_run :: "construction \<Rightarrow> schedule \<Rightarrow> probe_state" where
  "getMappedAddress_run c sched =
     (let st0 = executor c;
          heard = (if rejected st0 then [] else sched);
          st1 = foldl deliver st0 (takeWhile before_timeout heard);
          st2 = (if timeout_set st1 then finish 5000 st1 else st1)
      in foldl deliver st2 (dropWhile before_timeout heard))"

text \<open>
  The value of the promise: \<open>None\<close> while it is pending, \<open>Rejected\<close> when the
  executor threw.
\<close>

definition getMappedAddress :: "construction \<Rightarrow> schedule \<Rightarrow> mapped_addresses settled option" where
  "getMappedAddress c sched =
     (let st = getMappedAddress_run c sched
      in if rejected st then Some Rejected
         else if resolved st then Some (Fulfilled (addresses st))
         else None)"

text \<open>
  The time at which the promise settles: a throw of the executor rejects it at the
  start, otherwise it is the time of \<open>resolve\<close>.
\<close>

definition settled_at :: "probe_state \<Rightarrow> nat option" where
  "settled_at st = (if rejected st then Some 0 else resolved_at st)"

section \<open>Connectivity test and public address test\<close>

text \<open>
  \<open>testStunServerConnection\<close> resolves with \<open>{ udp: udpConnected, tcp: tcpConnected }\<close>.
  The names of the two local variables are kept for the fields.
\<close>

record connection_result =
  udpConnected :: bool
  tcpConnected :: bool

record connection_state =
  conn_resolved :: bool
  conn_timeout_set :: bool
  conn_pc_open :: bool
  conn_flags :: connection_result
  conn_value :: "connection_result option"

definition connection_init :: connection_state where
  "connection_init = \<lparr>conn_resolved = False, conn_timeout_set = True, conn_pc_open = True,
     conn_flags = \<lparr>udpConnected = False, tcpConnected = False\<rparr>, conn_value = None\<rparr>"

definition connection_finish :: "connection_state \<Rightarrow> connection_state" where
  "connection_finish st =
     (if conn_resolved st then st
      else st\<lparr>conn_resolved := True, conn_timeout_set := False, conn_pc_open := False,
              conn_value := Some (conn_flags st)\<rparr>)"

fun connection_deliver :: "connection_state \<Rightarrow> nat \<times> signal \<Rightarrow> connection_state" where
  "connection_deliver st (now, IceCandidate (Some candidate)) =
     (if \<not> conn_pc_open st then st
      else if isUdpSrflx candidate
      then st\<lparr>conn_flags := (conn_flags st)\<lparr>udpConnected := True\<rparr>\<rparr>
      else if isTcpSrflx candidate
      then st\<lparr>conn_flags := (conn_flags st)\<lparr>tcpConnected := True\<rparr>\<rparr>
      else st)"
| "connection_deliver st (now, IceCandidate None) =
     (if \<not> conn_pc_open st then st else connection_finish st)"
| "connection_deliver st (now, OfferRejected) = connection_finish st"

definition testStunServerConnection :: "schedule \<Rightarrow> connection_result option" where
  "testStunServerConnection sched =
     (let st1 = foldl connection_deliver connection_init (takeWhile before_timeout sched);
          st2 = (if conn_timeout_set st1 then connection_finish st1 else st1)
      in conn_value (foldl connection_deliver st2 (dropWhile before_timeout sched)))"

text \<open>\<open>testStunServer\<close>, applied to the awaited result of the connectivity test.\<close>

definition testStunServer :: "connection_result \<Rightarrow> bool" where
  "testStunServer result = (udpConnected result \<or> tcpConnected result)"

text \<open>
  \<open>testStunServers\<close>: the loop over \<open>this.stunServers\<close>, each server paired with the
  outcome of its awaited test; a rejection is caught and the server is skipped.
\<close>

fun testStunServers :: "(StunServer \<times> connection_result settled) list \<Rightarrow> StunServer list" where
  "testStunServers [] = []"
| "testStunServers ((srv, Fulfilled result) # rest) =
     (if testStunServer result then srv # testStunServers rest else testStunServers rest)"
| "testStunServers ((srv, Rejected) # rest) = testStunServers rest"

text \<open>The literals that \<open>detectPublicIP\<close> looks for anywhere in the candidate line, in order.\<close>

definition private_literals :: "string list" where
  "private_literals =
     [''192.168.'', ''10.'', ''172.16.'', ''172.17.'', ''172.18.'', ''172.19.'', ''172.20.'',
      ''172.21.'', ''172.22.'', ''172.23.'', ''172.24.'', ''172.25.'', ''172.26.'', ''172.27.'',
      ''172.28.'', ''172.29.'', ''172.30.'', ''172.31.'', ''169.254.'', ''127.0.0.1'', ''::1'',
      ''fc00:'', ''fd00:'', ''fe80:'', ''.local'', ''localhost'', ''0.0.0.0'', ''255.255.255.255'']"

definition isPrivateIP :: "string \<Rightarrow> bool" where
  "isPrivateIP candidate = list_ex (includes_str candidate) private_literals"

text \<open>
  The test of the same name in \<open>getPublicIPFromStun\<close>, on the parsed address:
  prefixes, and two whole addresses.
\<close>

definition private_prefixes :: "string list" where
  "private_prefixes =
     [''192.168.'', ''10.'', ''172.16.'', ''172.17.'', ''172.18.'', ''172.19.'', ''172.20.'',
      ''172.21.'', ''172.22.'', ''172.23.'', ''172.24.'', ''172.25.'', ''172.26.'', ''172.27.'',
      ''172.28.'', ''172.29.'', ''172.30.'', ''172.31.'', ''169.254.'', ''127.'']"

definition isPrivateIP_parsed :: "string \<Rightarrow> bool" where
  "isPrivateIP_parsed a =
     (list_ex (startsWith a) private_prefixes \<or> a = ''0.0.0.0'' \<or> a = ''255.255.255.255'')"

record public_ip_state =
  pub_resolved :: bool
  pub_timeout_set :: bool
  pub_pc_open :: bool
  pub_value :: "bool option"

definition public_ip_init :: public_ip_state where
  "public_ip_init = \<lparr>pub_resolved = False, pub_timeout_set = True, pub_pc_open = True,
                     pub_value = None\<rparr>"

definition public_ip_finish :: "bool \<Rightarrow> public_ip_state \<Rightarrow> public_ip_state" where
  "public_ip_finish result st =
     (if pub_resolved st then st
      else st\<lparr>pub_resolved := True, pub_timeout_set := False, pub_pc_open := False,
              pub_value := Some result\<rparr>)"

fun public_ip_deliver :: "public_ip_state \<Rightarrow> nat \<times> signal \<Rightarrow> public_ip_state" where
  "public_ip_deliver st (now, IceCandidate (Some candidate)) =
     (if \<not> pub_pc_open st then st
      else if isUdpSrflx candidate then public_ip_finish (\<not> isPrivateIP candidate) st
      else st)"
| "public_ip_deliver st (now, IceCandidate None) =
     (if \<not> pub_pc_open st then st
      else if \<not> pub_resolved st then public_ip_finish False st else st)"
| "public_ip_deliver st (now, OfferRejected) = public_ip_finish False st"

text \<open>
  \<open>detectPublicIP\<close>. The connection is made with \<open>this.stunServers[0]\<close> only; the
  transport gives the schedule of a connection from the URL of its ICE server. With no
  server the result is \<open>false\<close>.
\<close>

definition detectPublicIP_run :: "schedule \<Rightarrow> public_ip_state" where
  "detectPublicIP_run sched =
     (let st1 = foldl public_ip_deliver public_ip_init (takeWhile before_timeout sched);
          st2 = (if pub_timeout_set st1 then public_ip_finish False st1 else st1)
      in foldl public_ip_deliver st2 (dropWhile before_timeout sched))"

fun detectPublicIP :: "StunServer list \<Rightarrow> (string \<Rightarrow> schedule) \<Rightarrow> bool option" where
  "detectPublicIP [] transport = Some False"
| "detectPublicIP (srv # rest) transport = pub_value (detectPublicIP_run (transport (url srv)))"

section \<open>Collecting the mappings of one transport and family\<close>

text \<open>
  The pipeline \<open>map\<close>, \<open>filter\<close>, \<open>map\<close> of the four \<open>detect...NATType\<close>
  methods: the result of the probe of server \<open>index\<close> (the list \<open>mapped\<close>, one
  entry for each server) is paired with the name of that server, the empty slots are
  dropped.
\<close>

definition collect_addresses ::
  "(mapped_addresses \<Rightarrow> ip_port option) \<Rightarrow> StunServer list \<Rightarrow> mapped_addresses list \<Rightarrow> address list" where
  "collect_addresses slot stunServers mapped =
     map (\<lambda>item. \<lparr>ip = ip (the (fst item)), port = port (the (fst item)), server = snd item\<rparr>)
       (filter (\<lambda>item. fst item \<noteq> None)
          (map (\<lambda>(addr, srv). (slot addr, name srv)) (zip mapped stunServers)))"

text \<open>
  The common shape of \<open>detectIPv4UDPNATType\<close>, \<open>detectIPv6UDPNATType\<close>,
  \<open>detectIPv4TCPNATType\<close> and \<open>detectIPv6TCPNATType\<close>. With exactly one server the
  classifier is not called: the answer comes from the connectivity test, with no
  mapped address. A rejection of an awaited promise is caught and gives \<open>null\<close>.
\<close>

definition detectNATType ::
  "(mapped_addresses \<Rightarrow> ip_port option) \<Rightarrow> (connection_result \<Rightarrow> bool) \<Rightarrow> protocol \<Rightarrow> ip_version \<Rightarrow>
   StunServer list \<Rightarrow> connection_result settled \<Rightarrow> mapped_addresses list settled \<Rightarrow> NATTypeResult option" where
  "detectNATType slot flag prot ver stunServers connectionResult mapped =
     (if length stunServers = 1 then
        (case connectionResult of
           Fulfilled r \<Rightarrow>
             if flag r then Some \<lparr>type = ''Full Cone or Restricted Cone'', mappedAddresses = []\<rparr>
             else None
         | Rejected \<Rightarrow> None)
      else
        (case mapped of
           Fulfilled ms \<Rightarrow>
             detectNATTypeFromAddresses (collect_addresses slot stunServers ms) prot ver stunServers
         | Rejected \<Rightarrow> None))"

definition detectIPv4UDPNATType ::
  "StunServer list \<Rightarrow> connection_result settled \<Rightarrow> mapped_addresses list settled \<Rightarrow> NATTypeResult option" where
  "detectIPv4UDPNATType = detectNATType (\<lambda>addr. udp (ipv4 addr)) udpConnected UDP IPv4"

definition detectIPv6UDPNATType ::
  "StunServer list \<Rightarrow> connection_result settled \<Rightarrow> mapped_addresses list settled \<Rightarrow> NATTypeResult option" where
  "detectIPv6UDPNATType = detectNATType (\<lambda>addr. udp (ipv6 addr)) udpConnected UDP IPv6"

definition detectIPv4TCPNATType ::
  "StunServer list \<Rightarrow> connection_result settled \<Rightarrow> mapped_addresses list settled \<Rightarrow> NATTypeResult option" where
  "detectIPv4TCPNATType = detectNATType (\<lambda>addr. tcp (ipv4 addr)) tcpConnected TCP IPv4"

definition detectIPv6TCPNATType ::
  "StunServer list \<Rightarrow> connection_result settled \<Rightarrow> mapped_addresses list settled \<Rightarrow> NATTypeResult option" where
  "detectIPv6TCPNATType = detectNATType (\<lambda>addr. tcp (ipv6 addr)) tcpConnected TCP IPv6"

text \<open>The initial value of the field \<open>stunServers\<close>.\<close>

definition default_stunServers :: "StunServer list" where
  "default_stunServers =
     [\<lparr>url = ''stun:stun.miwifi.com:3478'', host = ''stun.miwifi.com'',
       server_port = 3478, name = ''stun.miwifi.com''\<rparr>,
      \<lparr>url = ''stun:stun.l.google.com:19302'', host = ''stun.l.google.com'',
       server_port = 19302, name = ''stun.l.google.com''\<rparr>]"

section \<open>The overall network type\<close>

text \<open>
  \<open>formatNATType\<close> returns one of five fixed labels; they are written in Chinese in
  the source and are constructors here. \<open>Unknown\<close> and the default case return
  the same label.
\<close>

datatype nat_label =
    ConeLabel
  | RestrictedConeLabel
  | SymmetricLabel
  | PortRestrictedLabel
  | RestrictedNetworkLabel

definition formatNATType :: "string \<Rightarrow> nat_label" where
  "formatNATType natType =
     (if natType = ''Full Cone or Restricted Cone'' then ConeLabel
      else if natType = ''Restricted Cone'' then RestrictedConeLabel
      else if natType = ''Symmetric NAT'' then SymmetricLabel
      else if natType = ''Port Restricted'' then PortRestrictedLabel
      else if natType = ''Unknown'' then RestrictedNetworkLabel
      else RestrictedNetworkLabel)"

text \<open>
  The values of \<open>networkType\<close>, in the order of the branches of \<open>detectNetworkType\<close>:
  the label for a network blocked by a firewall (the specification's
  "Firewalled/Blocked"), the label for a public network ("Open/Public"), and the three
  templates built from formatted NAT types: UDP and TCP differ, TCP detected and equal
  to UDP, only UDP detected.
\<close>

datatype network_type =
    FirewallBlocked
  | PublicNetwork
  | UdpTcpDiffer nat_label nat_label
  | TcpAndUdp nat_label
  | UdpOnly nat_label

datatype test_status = success | failed

record mapped_target = address +
  protocol :: protocol
  ipVersion :: ip_version

record SpeedTestResult =
  latency :: int
  throughput :: rat
  packetLoss :: rat
  connectionTime :: int
  status :: test_status
  packetsSent :: nat
  packetsReceived :: nat
  mappedAddress :: mapped_target

text \<open>
  The objects \<open>details.ipv4\<close> and \<open>details.ipv6\<close>; their fields \<open>udp\<close>, \<open>tcp\<close>,
  \<open>udpCanConnect\<close>, \<open>tcpCanConnect\<close> carry a prefix, the plain names being taken.
\<close>

record family_detection =
  family_udp :: "NATTypeResult option"
  family_tcp :: "NATTypeResult option"
  family_udpCanConnect :: bool
  family_tcpCanConnect :: bool

record detection_details =
  hasPublicIP :: bool
  canReceiveFromAny :: bool
  canConnectToStun :: bool
  stunServersReachable :: nat
  details_ipv4 :: family_detection
  details_ipv6 :: family_detection
  udpNatType :: string
  tcpNatType :: "string option"
  udpCanConnect :: bool
  tcpCanConnect :: bool
  speedTests :: "SpeedTestResult list"

text \<open>\<open>NetworkDetectionResult\<close>; its field \<open>type\<close> is \<open>result_type\<close> here.\<close>

record NetworkDetectionResult =
  result_type :: network_type
  details :: detection_details

text \<open>\<open>Promise.all\<close>: the values in order, or a rejection if one promise rejects.\<close>

fun promise_all :: "'a settled list \<Rightarrow> 'a list settled" where
  "promise_all [] = Fulfilled []"
| "promise_all (Rejected # ps) = Rejected"
| "promise_all (Fulfilled v # ps) =
     (case promise_all ps of Rejected \<Rightarrow> Rejected | Fulfilled vs \<Rightarrow> Fulfilled (v # vs))"

text \<open>
  \<open>r?.type || rest\<close>: the type of \<open>r\<close> if \<open>r\<close> is not null and its type is not
  the empty string, else \<open>rest\<close>.
\<close>

definition type_or :: "NATTypeResult option \<Rightarrow> string option \<Rightarrow> string option" where
  "type_or r rest =
     (case r of None \<Rightarrow> rest | Some x \<Rightarrow> if type x \<noteq> [] then Some (type x) else rest)"

text \<open>Step 6 of \<open>detectNetworkType\<close>: the decision on \<open>networkType\<close>.\<close>

definition decide_networkType ::
  "StunServer list \<Rightarrow> bool \<Rightarrow> string \<Rightarrow> string option \<Rightarrow> network_type" where
  "decide_networkType reachableServers hasPublic udpNat tcpNat =
     (if length reachableServers = 0 then FirewallBlocked
      else if hasPublic \<and> udpNat = ''Unknown'' \<and> (tcpNat = None \<or> tcpNat = Some [])
      then PublicNetwork
      else
        let udpType = formatNATType udpNat;
            tcpType = (case tcpNat of
                         None \<Rightarrow> None
                       | Some t \<Rightarrow> if t \<noteq> [] then Some (formatNATType t) else None)
        in case tcpType of
             Some t \<Rightarrow> if udpType \<noteq> t then UdpTcpDiffer udpType t else TcpAndUdp t
           | None \<Rightarrow> UdpOnly udpType)"

text \<open>Step 8: the mapped addresses to test, family by family, and the fallback result.\<close>

definition targets_of :: "NATTypeResult option \<Rightarrow> protocol \<Rightarrow> ip_version \<Rightarrow> mapped_target list" where
  "targets_of r prot ver =
     (case r of
        None \<Rightarrow> []
      | Some x \<Rightarrow>
          if length (mappedAddresses x) > 0
          then map (\<lambda>addr. \<lparr>ip = ip addr, port = port addr, server = server addr,
                             protocol = prot, ipVersion = ver\<rparr>) (mappedAddresses x)
          else [])"

definition failed_result :: "int \<Rightarrow> mapped_target \<Rightarrow> SpeedTestResult" where
  "failed_result t target =
     \<lparr>latency = 0, throughput = 0, packetLoss = 100, connectionTime = t, status = failed,
      packetsSent = 0, packetsReceived = 0, mappedAddress = target\<rparr>"

text \<open>
  \<open>detectNetworkType\<close>, from the outcomes of the promises it awaits: \<open>reach\<close> and
  \<open>conn\<close> hold, for each server in order, the outcome of the connectivity test made
  by \<open>testStunServers\<close> and by step 2; \<open>pub\<close> is the outcome of \<open>detectPublicIP\<close>;
  the four NAT results come from methods that catch every rejection; \<open>speed\<close> gives
  the outcome of \<open>performSpeedTest\<close> for each target. A rejection in step 2 or 3 is
  not caught: the method rejects.
\<close>

definition detectNetworkType ::
  "StunServer list \<Rightarrow> connection_result settled list \<Rightarrow> connection_result settled list \<Rightarrow>
   bool settled \<Rightarrow> NATTypeResult option \<Rightarrow> NATTypeResult option \<Rightarrow> NATTypeResult option \<Rightarrow>
   NATTypeResult option \<Rightarrow> (mapped_target \<Rightarrow> SpeedTestResult settled) \<Rightarrow>
   NetworkDetectionResult settled" where
  "detectNetworkType servers reach conn pub ipv4UdpResult ipv4TcpResult ipv6UdpResult ipv6TcpResult speed =
     (let reachableServers = testStunServers (zip servers reach)
      in case promise_all conn of
           Rejected \<Rightarrow> Rejected
         | Fulfilled connectionResults \<Rightarrow>
        (case pub of
           Rejected \<Rightarrow> Rejected
         | Fulfilled hasPublic \<Rightarrow>
             let udpCan = list_ex udpConnected connectionResults;
                 tcpCan = list_ex tcpConnected connectionResults;
                 udpNat = (case type_or ipv4UdpResult (type_or ipv6UdpResult None) of
                             Some t \<Rightarrow> t | None \<Rightarrow> ''Unknown'');
                 tcpNat = type_or ipv4TcpResult (type_or ipv6TcpResult None);
                 networkType = decide_networkType reachableServers hasPublic udpNat tcpNat;
                 targets =
                   (if length reachableServers > 0 \<and> (udpCan \<or> tcpCan)
                    then targets_of ipv4UdpResult UDP IPv4 @ targets_of ipv4TcpResult TCP IPv4
                         @ targets_of ipv6UdpResult UDP IPv6 @ targets_of ipv6TcpResult TCP IPv6
                    else []);
                 tests = map (\<lambda>target. case speed target of
                                           Fulfilled result \<Rightarrow> result
                                         | Rejected \<Rightarrow> failed_result 0 target) targets
             in Fulfilled
                  \<lparr>result_type = networkType,
                   details =
                     \<lparr>hasPublicIP = hasPublic,
                      canReceiveFromAny =
                        (udpNat = ''Full Cone'' \<or> udpNat = ''Full Cone or Restricted Cone''),
                      canConnectToStun = (length reachableServers > 0),
                      stunServersReachable = length reachableServers,
                      details_ipv4 =
                        \<lparr>family_udp = ipv4UdpResult, family_tcp = ipv4TcpResult,
                         family_udpCanConnect = (ipv4UdpResult \<noteq> None),
                         family_tcpCanConnect = (ipv4TcpResult \<noteq> None)\<rparr>,
                      details_ipv6 =
                        \<lparr>family_udp = ipv6UdpResult, family_tcp = ipv6TcpResult,
                         family_udpCanConnect = (ipv6UdpResult \<noteq> None),
                         family_tcpCanConnect = (ipv6TcpResult \<noteq> None)\<rparr>,
                      udpNatType = udpNat, tcpNatType = tcpNat,
                      udpCanConnect = udpCan, tcpCanConnect = tcpCan,
                      speedTests = tests\<rparr>\<rparr>))"

section \<open>Path quality: \<open>performSpeedTest\<close>\<close>

text \<open>
  A test packet: the \<open>ArrayBuffer\<close> of \<open>packetSize\<close> bytes with the packet id
  (written as an unsigned 32-bit integer) and the send timestamp.
\<close>

record packet =
  packetId :: nat
  sentTimestamp :: int
  byteLength :: nat

definition testDuration :: int where
  "testDuration = 4000"

definition packetSize :: nat where
  "packetSize = 1024"

text \<open>
  The closure state. \<open>sent\<close> and \<open>received\<close> are \<open>packets.sent\<close> and
  \<open>packets.received\<close>; \<open>timestamps\<close> is the \<open>Map\<close> of \<open>packets\<close>, as a list of
  entries, newest first. \<open>dataChannel1_open\<close> stands for
  \<open>dataChannel1 && dataChannel1.readyState === 'open'\<close> and \<open>dataChannel2_set\<close> for
  the handlers of \<open>dataChannel2\<close> being installed. \<open>closed\<close> is set by \<open>cleanup\<close>.

  Two fields are not variables of the source: \<open>to_pc2\<close> and \<open>to_pc1\<close> are the
  contents of the data channel in the two directions, the packets that were handed to
  \<open>send\<close> and are not yet delivered or lost. The channel is ordered and delivers a
  message at most once; it delivers nothing that was not sent.
\<close>

record speed_state =
  connectionStartTime :: int
  connectionEstablished :: bool
  dataChannel1_open :: bool
  dataChannel2_set :: bool
  sendInterval_running :: bool
  sent :: nat
  received :: nat
  timestamps :: "(nat \<times> int) list"
  totalBytesReceived :: nat
  latencies :: "int list"
  to_pc2 :: "packet list"
  to_pc1 :: "packet list"
  timeout_pending :: bool
  closed :: bool
  promise :: "SpeedTestResult option"

definition speed_init :: "int \<Rightarrow> speed_state" where
  "speed_init startTime =
     \<lparr>connectionStartTime = startTime, connectionEstablished = False,
      dataChannel1_open = False, dataChannel2_set = False, sendInterval_running = False,
      sent = 0, received = 0, timestamps = [], totalBytesReceived = 0, latencies = [],
      to_pc2 = [], to_pc1 = [], timeout_pending = True, closed = False, promise = None\<rparr>"

text \<open>
  \<open>finish\<close> of \<open>performSpeedTest\<close>: \<open>cleanup\<close>, then \<open>resolve\<close>, which has an
  effect only on a pending promise.
\<close>

definition speed_finish :: "SpeedTestResult \<Rightarrow> speed_state \<Rightarrow> speed_state" where
  "speed_finish result st =
     st\<lparr>timeout_pending := False, closed := True, dataChannel1_open := False,
        dataChannel2_set := False,
        promise := (case promise st of None \<Rightarrow> Some result | Some r \<Rightarrow> Some r)\<rparr>"

text \<open>\<open>dataChannel1.onopen\<close>.\<close>

definition dataChannel1_onopen :: "int \<Rightarrow> speed_state \<Rightarrow> speed_state" where
  "dataChannel1_onopen now st =
     (if \<not> connectionEstablished st
      then st\<lparr>connectionEstablished := True, connectionStartTime := now,
              sendInterval_running := True\<rparr>
      else st)"

text \<open>
  The callback of \<open>setInterval(..., 50)\<close>; \<open>ok\<close> tells whether \<open>send\<close> returns
  without throwing. The counter is incremented only after a successful \<open>send\<close>.
\<close>

definition sendInterval_callback :: "int \<Rightarrow> bool \<Rightarrow> speed_state \<Rightarrow> speed_state" where
  "sendInterval_callback now ok st =
     (if dataChannel1_open st then
        (let id = sent st;
             st1 = st\<lparr>timestamps := (id, now) # filter (\<lambda>e. fst e \<noteq> id) (timestamps st)\<rparr>;
             data = \<lparr>packetId = id mod 2 ^ 32, sentTimestamp = now, byteLength = packetSize\<rparr>
         in if ok then st1\<lparr>to_pc2 := to_pc2 st1 @ [data], sent := sent st1 + 1\<rparr> else st1)
      else st\<lparr>sendInterval_running := False\<rparr>)"

text \<open>
  \<open>dataChannel2.onmessage\<close>; \<open>isArrayBuffer\<close> is \<open>event.data instanceof ArrayBuffer\<close>
  and \<open>echo\<close> tells whether \<open>dataChannel2\<close> is open and its \<open>send\<close> does not throw.
\<close>

definition dataChannel2_onmessage ::
  "int \<Rightarrow> packet \<Rightarrow> bool \<Rightarrow> bool \<Rightarrow> speed_state \<Rightarrow> speed_state" where
  "dataChannel2_onmessage now data isArrayBuffer echo st =
     (if isArrayBuffer \<and> byteLength data \<ge> 12 then
        (let st1 = st\<lparr>latencies := latencies st @ [now - sentTimestamp data],
                      totalBytesReceived := totalBytesReceived st + byteLength data,
                      received := received st + 1\<rparr>
         in if echo then st1\<lparr>to_pc1 := to_pc1 st1 @ [data]\<rparr> else st1)
      else st)"

text \<open>\<open>dataChannel1.onmessage\<close>: an echo adds a latency and bytes, not a received packet.\<close>

definition dataChannel1_onmessage :: "int \<Rightarrow> packet \<Rightarrow> bool \<Rightarrow> speed_state \<Rightarrow> speed_state" where
  "dataChannel1_onmessage now data isArrayBuffer st =
     (if isArrayBuffer \<and> byteLength data \<ge> 12 then
        st\<lparr>latencies := latencies st @ [now - sentTimestamp data],
           totalBytesReceived := totalBytesReceived st + byteLength data\<rparr>
      else st)"

text \<open>
  The callback of the timer of \<open>testDuration + 2000\<close> ms. Numbers are exact rationals
  here; \<open>Math.round x\<close> is \<open>\<lfloor>x + 1/2\<rfloor>\<close>, which is \<open>round\<close>.
\<close>

definition speed_timeout :: "mapped_target \<Rightarrow> int \<Rightarrow> int \<Rightarrow> speed_state \<Rightarrow> speed_state" where
  "speed_timeout target startTime now st =
     (let connTime = (if connectionEstablished st then connectionStartTime st - startTime
                      else now - startTime);
          avgLatency = (if length (latencies st) > 0
                        then rat_of_int (sum_list (latencies st)) / rat_of_nat (length (latencies st))
                        else 0);
          thr = (if totalBytesReceived st > 0
                 then (rat_of_nat (totalBytesReceived st) / 1024) / (rat_of_int testDuration / 1000)
                 else 0);
          loss = (if sent st > 0
                  then ((rat_of_nat (sent st) - rat_of_nat (received st)) / rat_of_nat (sent st)) * 100
                  else 100)
      in speed_finish
           \<lparr>latency = round avgLatency,
            throughput = rat_of_int (round (thr * 100)) / 100,
            packetLoss = rat_of_int (round (loss * 100)) / 100,
            connectionTime = connTime,
            status = (if connectionEstablished st then success else failed),
            packetsSent = sent st,
            packetsReceived = received st,
            mappedAddress = target\<rparr> st)"

text \<open>
  What can happen during a test, each with the value of \<open>Date.now()\<close> at that moment:
  the channel of the first connection opens or stops being open, the second
  connection announces its channel, the send timer ticks, the timer of \<open>testDuration\<close>
  stops the sending, the channel delivers or loses the oldest packet in flight in one
  direction, the offer and answer exchange rejects, the final timer fires.
\<close>

datatype speed_event =
    Channel1Open
  | Channel1NotOpen
  | Channel2Announced
  | IntervalTick bool
  | StopSending
  | DeliverToPc2 bool bool
  | LoseToPc2
  | DeliverToPc1 bool
  | LoseToPc1
  | SetupRejected
  | FinalTimeout

fun speed_step :: "mapped_target \<Rightarrow> int \<Rightarrow> speed_state \<Rightarrow> int \<times> speed_event \<Rightarrow> speed_state" where
  "speed_step target startTime st (now, Channel1Open) =
     (if closed st then st else dataChannel1_onopen now (st\<lparr>dataChannel1_open := True\<rparr>))"
| "speed_step target startTime st (now, Channel1NotOpen) = st\<lparr>dataChannel1_open := False\<rparr>"
| "speed_step target startTime st (now, Channel2Announced) =
     (if closed st then st else st\<lparr>dataChannel2_set := True\<rparr>)"
| "speed_step target startTime st (now, IntervalTick ok) =
     (if sendInterval_running st then sendInterval_callback now ok st else st)"
| "speed_step target startTime st (now, StopSending) = st\<lparr>sendInterval_running := False\<rparr>"
| "speed_step target startTime st (now, DeliverToPc2 isArrayBuffer echo) =
     (case to_pc2 st of
        [] \<Rightarrow> st
      | data # rest \<Rightarrow>
          if closed st \<or> \<not> dataChannel2_set st then st
          else dataChannel2_onmessage now data isArrayBuffer echo (st\<lparr>to_pc2 := rest\<rparr>))"
| "speed_step target startTime st (now, LoseToPc2) = st\<lparr>to_pc2 := tl (to_pc2 st)\<rparr>"
| "speed_step target startTime st (now, DeliverToPc1 isArrayBuffer) =
     (case to_pc1 st of
        [] \<Rightarrow> st
      | data # rest \<Rightarrow>
          if closed st then st
          else dataChannel1_onmessage now data isArrayBuffer (st\<lparr>to_pc1 := rest\<rparr>))"
| "speed_step target startTime st (now, LoseToPc1) = st\<lparr>to_pc1 := tl (to_pc1 st)\<rparr>"
| "speed_step target startTime st (now, SetupRejected) =
     speed_finish (failed_result (now - startTime) target) st"
| "speed_step target startTime st (now, FinalTimeout) =
     (if timeout_pending st then speed_timeout target startTime now st else st)"

text \<open>
  \<open>performSpeedTest\<close>: the value of the promise after the events, \<open>None\<close> while it is
  pending.
\<close>

definition performSpeedTest ::
  "mapped_target \<Rightarrow> int \<Rightarrow> (int \<times> speed_event) list \<Rightarrow> SpeedTestResult option" where
  "performSpeedTest target startTime events =
     promise (foldl (speed_step target startTime) (speed_init startTime) events)"

section \<open>The earlier revision of the probe\<close>

text \<open>
  The revision before the one above has a \<open>getMappedAddress\<close> that looks at UDP
  candidates only and resolves with \<open>{ ip, port } | null\<close>. On the first candidate
  that parses it closes the connection and resolves. It has no \<open>resolved\<close> flag and
  never clears its timer; a second \<open>resolve\<close> has no effect. The model below is
  of the probes whose connection was constructed.
\<close>

record earlier_state =
  earlier_pc_open :: bool
  earlier_value :: "ip_port option option"
  earlier_resolved_at :: "nat option"

definition earlier_init :: earlier_state where
  "earlier_init = \<lparr>earlier_pc_open = True, earlier_value = None, earlier_resolved_at = None\<rparr>"

definition earlier_resolve :: "nat \<Rightarrow> ip_port option \<Rightarrow> earlier_state \<Rightarrow> earlier_state" where
  "earlier_resolve now v st =
     (if earlier_value st = None
      then st\<lparr>earlier_value := Some v, earlier_resolved_at := Some now\<rparr>
      else st)"

fun earlier_deliver :: "earlier_state \<Rightarrow> nat \<times> signal \<Rightarrow> earlier_state" where
  "earlier_deliver st (now, IceCandidate (Some candidate)) =
     (if \<not> earlier_pc_open st then st
      else if isUdpSrflx candidate then
        (case parse_candidate candidate of
           None \<Rightarrow> st
         | Some a \<Rightarrow> earlier_resolve now (Some a) (st\<lparr>earlier_pc_open := False\<rparr>))
      else st)"
| "earlier_deliver st (now, IceCandidate None) =
     (if \<not> earlier_pc_open st then st
      else earlier_resolve now None (st\<lparr>earlier_pc_open := False\<rparr>))"
| "earlier_deliver st (now, OfferRejected) = earlier_resolve now None st"

definition getMappedAddress_earlier :: "schedule \<Rightarrow> earlier_state" where
  "getMappedAddress_earlier sched =
     (let st1 = foldl earlier_deliver earlier_init (takeWhile before_timeout sched);
          st2 = earlier_resolve 5000 None (st1\<lparr>earlier_pc_open := False\<rparr>)
      in foldl earlier_deliver st2 (dropWhile before_timeout sched))"

section \<open>Predicates used in the statements\<close>

text \<open>
  A candidate line is accepted by the probe when one of the two tests holds and the
  parsing block succeeds; then, and only then, \<open>record_candidate\<close> writes a slot.
\<close>

definition accepted :: "string \<Rightarrow> bool" where
  "accepted candidate =
     ((isUdpSrflx candidate \<or> isTcpSrflx candidate) \<and> parse_candidate candidate \<noteq> None)"

text \<open>The signals that make the probe finish before its timer does.\<close>

fun final_signal :: "signal \<Rightarrow> bool" where
  "final_signal (IceCandidate None) = True"
| "final_signal OfferRejected = True"
| "final_signal (IceCandidate (Some c)) = False"

text \<open>A schedule of candidate lines only.\<close>

definition candidates_at :: "(nat \<times> string) list \<Rightarrow> schedule" where
  "candidates_at tcs = map (\<lambda>tc. (fst tc, IceCandidate (Some (snd tc)))) tcs"

text \<open>
  The flags of a probe move together: it is resolved exactly when its timer is cleared,
  its connection closed and the time of resolution known.
\<close>

definition probe_wf :: "probe_state \<Rightarrow> bool" where
  "probe_wf st =
     (if resolved st then \<not> timeout_set st \<and> \<not> pc_open st \<and> resolved_at st \<noteq> None
      else timeout_set st \<and> pc_open st \<and> resolved_at st = None)"

definition public_ip_wf :: "public_ip_state \<Rightarrow> bool" where
  "public_ip_wf st =
     (if pub_resolved st
      then \<not> pub_timeout_set st \<and> \<not> pub_pc_open st \<and> pub_value st \<noteq> None
      else pub_timeout_set st \<and> pub_pc_open st \<and> pub_value st = None)"

text \<open>\<open>Math.round(x * 100) / 100\<close>, the rounding of the reported loss and throughput.\<close>

definition two_decimals :: "rat \<Rightarrow> rat" where
  "two_decimals x = rat_of_int (round (x * 100)) / 100"

text \<open>
  What every result of a speed test satisfies, and what every state of a test
  satisfies: the packets counted as received and those still in flight to the second
  connection are among the packets sent; sending starts only once the connection is
  established; the timer is pending as long as the promise is.
\<close>

definition result_inv :: "SpeedTestResult \<Rightarrow> bool" where
  "result_inv r =
     (packetsReceived r \<le> packetsSent r
      \<and> packetLoss r =
          two_decimals
            (if packetsSent r > 0
             then (rat_of_nat (packetsSent r) - rat_of_nat (packetsReceived r))
                    / rat_of_nat (packetsSent r) * 100
             else 100)
      \<and> (if packetsSent r > 0 then status r = success else True))"

definition speed_inv :: "speed_state \<Rightarrow> bool" where
  "speed_inv st =
     (received st + length (to_pc2 st) \<le> sent st
      \<and> (if sendInterval_running st then connectionEstablished st else True)
      \<and> (if sent st > 0 then connectionEstablished st else True)
      \<and> (case promise st of None \<Rightarrow> timeout_pending st | Some r \<Rightarrow> result_inv r))"

text \<open>
  A test run used in the examples: the channel of the second connection is announced,
  the first channel opens at 950 ms, \<open>n\<close> packets are sent from 1000 ms on, one every
  50 ms, sending stops, \<open>k\<close> packets reach the second connection and are echoed,
  \<open>j\<close> echoes come back, and the final timer fires.
\<close>

definition example_target :: mapped_target where
  "example_target =
     \<lparr>ip = ''203.0.113.5'', port = 40000, server = ''stun.miwifi.com'',
      protocol = UDP, ipVersion = IPv4\<rparr>"

definition example_run :: "nat \<Rightarrow> nat \<Rightarrow> nat \<Rightarrow> (int \<times> speed_event) list" where
  "example_run n k j =
     [(900, Channel2Announced), (950, Channel1Open)]
     @ map (\<lambda>i. (1000 + 50 * int i, IntervalTick True)) [0..<n]
     @ [(4950, StopSending)]
     @ map (\<lambda>i. (5001 + int i, DeliverToPc2 True True)) [0..<k]
     @ map (\<lambda>i. (5201 + int i, DeliverToPc1 True)) [0..<j]
     @ [(6000, FinalTimeout)]"

text \<open>The fields of a result that the packet loss is about.\<close>

definition loss_summary :: "SpeedTestResult \<Rightarrow> nat \<times> nat \<times> rat \<times> test_status" where
  "loss_summary r = (packetsSent r, packetsReceived r, packetLoss r, status r)"

section \<open>Properties of the classifier\<close>

lemma classify_same_ip_same_port:
  assumes "addrs \<noteq> []"
    and "\<forall>a \<in> set addrs. \<forall>b \<in> set addrs. ip a = ip b"
    and "\<forall>a \<in> set addrs. \<forall>b \<in> set addrs. port a = port b"
  shows "detectNATTypeFromAddresses addrs prot ver servers =
         Some \<lparr>type = (if length addrs = length servers
                        then ''Full Cone or Restricted Cone'' else ''Restricted Cone''),
               mappedAddresses = addrs\<rparr>"
proof (cases addrs)
  case Nil
  with assms(1) show ?thesis by blast
next
  case (Cons a as)
  then have mem: "a \<in> set addrs" by simp
  from mem assms(2) have "\<forall>b \<in> set addrs. ip b = ip a" by blast
  then have ips: "list_all (\<lambda>addr. ip addr = ip a) addrs"
    unfolding list_all_iff .
  from mem assms(3) have "\<forall>b \<in> set addrs. port b = port a" by blast
  then have ports: "list_all (\<lambda>addr. port addr = port a) addrs"
    unfolding list_all_iff .
  have "detectNATTypeFromAddresses (a # as) prot ver servers =
         Some \<lparr>type = (if length (a # as) = length servers
                        then ''Full Cone or Restricted Cone'' else ''Restricted Cone''),
               mappedAddresses = a # as\<rparr>"
    using ips ports unfolding Cons detectNATTypeFromAddresses.simps Let_def
    by (simp only: if_True if_False not_True_eq_False)
  then show ?thesis unfolding Cons .
qed

text \<open>
  Claim C2. Whenever all mapped addresses share one IP but two of them differ in their
  port, the classifier answers \<open>Symmetric NAT\<close> (the endpoint-dependent mapping of
  the specification), with the given addresses as evidence.
\<close>

theorem same_ip_distinct_ports_symmetric:
  assumes "\<forall>a \<in> set addrs. \<forall>b \<in> set addrs. ip a = ip b"
    and "\<exists>a \<in> set addrs. \<exists>b \<in> set addrs. port a \<noteq> port b"
  shows "detectNATTypeFromAddresses addrs prot ver servers =
         Some \<lparr>type = ''Symmetric NAT'', mappedAddresses = addrs\<rparr>"
proof (cases addrs)
  case Nil
  with assms(2) show ?thesis by simp
next
  case (Cons a as)
  then have mem: "a \<in> set addrs" by simp
  from mem assms(1) have "\<forall>b \<in> set addrs. ip b = ip a" by blast
  then have ips: "list_all (\<lambda>addr. ip addr = ip a) addrs"
    unfolding list_all_iff .
  from assms(2) obtain x y where xy: "x \<in> set addrs" "y \<in> set addrs" "port x \<noteq> port y"
    by blast
  have "\<not> (\<forall>b \<in> set addrs. port b = port a)"
  proof
    assume all: "\<forall>b \<in> set addrs. port b = port a"
    from all xy(1) have "port x = port a" by blast
    moreover from all xy(2) have "port y = port a" by blast
    ultimately show False using xy(3) by simp
  qed
  then have ports: "\<not> list_all (\<lambda>addr. port addr = port a) addrs"
    unfolding list_all_iff .
  have "detectNATTypeFromAddresses (a # as) prot ver servers =
         Some \<lparr>type = ''Symmetric NAT'', mappedAddresses = a # as\<rparr>"
    using ips ports unfolding Cons detectNATTypeFromAddresses.simps Let_def
    by (simp only: if_True if_False not_True_eq_False)
  then show ?thesis unfolding Cons .
qed

text \<open>
  Scenario B: one server reports 203.0.113.5:40000, the other 203.0.113.5:51000.
\<close>

theorem same_ip_distinct_ports_witness:
  "detectNATTypeFromAddresses
     [\<lparr>ip = ''203.0.113.5'', port = 40000, server = ''stun.miwifi.com''\<rparr>,
      \<lparr>ip = ''203.0.113.5'', port = 51000, server = ''stun.l.google.com''\<rparr>]
     UDP IPv4 default_stunServers =
   Some \<lparr>type = ''Symmetric NAT'',
         mappedAddresses =
           [\<lparr>ip = ''203.0.113.5'', port = 40000, server = ''stun.miwifi.com''\<rparr>,
            \<lparr>ip = ''203.0.113.5'', port = 51000, server = ''stun.l.google.com''\<rparr>]\<rparr>"
proof -
  let ?a1 = "\<lparr>ip = ''203.0.113.5'', port = 40000, server = ''stun.miwifi.com''\<rparr>"
  let ?a2 = "\<lparr>ip = ''203.0.113.5'', port = 51000, server = ''stun.l.google.com''\<rparr>"
  have ips: "\<forall>a \<in> set [?a1, ?a2]. \<forall>b \<in> set [?a1, ?a2]. ip a = ip b" by simp
  have ports: "\<exists>a \<in> set [?a1, ?a2]. \<exists>b \<in> set [?a1, ?a2]. port a \<noteq> port b"
    by (rule bexI [of _ ?a1], rule bexI [of _ ?a2]) simp_all
  show ?thesis
    using same_ip_distinct_ports_symmetric [OF ips ports, of UDP IPv4 default_stunServers] .
qed

lemma collect_addresses_Nil: "collect_addresses slot [] [] = []"
  by (simp add: collect_addresses_def)

lemma collect_addresses_Cons:
  "collect_addresses slot (srv # srvs) (m # ms) =
     (case slot m of
        None \<Rightarrow> collect_addresses slot srvs ms
      | Some a \<Rightarrow> \<lparr>ip = ip a, port = port a, server = name srv\<rparr> # collect_addresses slot srvs ms)"
  by (simp add: collect_addresses_def split: option.split)

lemma length_collect_addresses_le:
  "length mapped = length servers \<Longrightarrow>
   length (collect_addresses slot servers mapped) \<le> length servers"
proof (induction mapped servers rule: list_induct2)
  case Nil
  show ?case by (simp add: collect_addresses_Nil)
next
  case (Cons m ms srv srvs)
  then show ?case by (simp add: collect_addresses_Cons split: option.split)
qed

text \<open>
  A server contributes at most one address, so the collected list is as long as the
  list of servers exactly when every server produced a mapping.
\<close>

lemma length_collect_addresses:
  "length mapped = length servers \<Longrightarrow>
   (length (collect_addresses slot servers mapped) = length servers)
     = (\<forall>m \<in> set mapped. slot m \<noteq> None)"
proof (induction mapped servers rule: list_induct2)
  case Nil
  show ?case by (simp add: collect_addresses_Nil)
next
  case (Cons m ms srv srvs)
  have le: "length (collect_addresses slot srvs ms) \<le> length srvs"
    using Cons.hyps by (rule length_collect_addresses_le)
  show ?case
  proof (cases "slot m")
    case None
    with le show ?thesis by (simp add: collect_addresses_Cons)
  next
    case (Some a)
    with Cons.IH show ?thesis by (simp add: collect_addresses_Cons)
  qed
qed

text \<open>
  Claim C1. Let the addresses be those collected for one transport and family, one
  probe result for each configured server. If the collected list is not empty and all
  its addresses have the same IP and the same port, the classifier answers
  \<open>Full Cone or Restricted Cone\<close> (endpoint-independent mapping) when every server
  produced a mapping and the tighter \<open>Restricted Cone\<close> (the port-restricted category
  of the specification) when only some did; it never answers \<open>Symmetric NAT\<close>.
\<close>

theorem same_ip_same_port_never_symmetric:
  assumes "length mapped = length servers"
    and "addrs = collect_addresses slot servers mapped"
    and "addrs \<noteq> []"
    and "\<forall>a \<in> set addrs. \<forall>b \<in> set addrs. ip a = ip b"
    and "\<forall>a \<in> set addrs. \<forall>b \<in> set addrs. port a = port b"
  shows "\<exists>r. detectNATTypeFromAddresses addrs prot ver servers = Some r
           \<and> mappedAddresses r = addrs
           \<and> type r = (if \<forall>m \<in> set mapped. slot m \<noteq> None
                        then ''Full Cone or Restricted Cone'' else ''Restricted Cone'')
           \<and> type r \<noteq> ''Symmetric NAT''"
proof -
  have len: "(length addrs = length servers) = (\<forall>m \<in> set mapped. slot m \<noteq> None)"
    unfolding assms(2) using assms(1) by (rule length_collect_addresses)
  have "detectNATTypeFromAddresses addrs prot ver servers =
         Some \<lparr>type = (if length addrs = length servers
                        then ''Full Cone or Restricted Cone'' else ''Restricted Cone''),
               mappedAddresses = addrs\<rparr>"
    using assms(3,4,5) by (rule classify_same_ip_same_port)
  then show ?thesis unfolding len by simp
qed

text \<open>
  Scenario A (both servers report 203.0.113.5:40000, evidence of length 2), and the
  case where only the second server produced that mapping.
\<close>

theorem same_ip_same_port_witness:
  "(\<exists>r. detectNATTypeFromAddresses
          [\<lparr>ip = ''203.0.113.5'', port = 40000, server = ''stun.miwifi.com''\<rparr>,
           \<lparr>ip = ''203.0.113.5'', port = 40000, server = ''stun.l.google.com''\<rparr>]
          UDP IPv4 default_stunServers = Some r
        \<and> length (mappedAddresses r) = 2
        \<and> type r = ''Full Cone or Restricted Cone'')
   \<and> (\<exists>r. detectNATTypeFromAddresses
          [\<lparr>ip = ''203.0.113.5'', port = 40000, server = ''stun.l.google.com''\<rparr>]
          UDP IPv4 default_stunServers = Some r
        \<and> type r = ''Restricted Cone'')"
proof -
  let ?m = "\<lparr>ipv4 = \<lparr>udp = Some \<lparr>ip = ''203.0.113.5'', port = 40000\<rparr>, tcp = None\<rparr>,
             ipv6 = \<lparr>udp = None, tcp = None\<rparr>\<rparr>"
  let ?slot = "\<lambda>m. udp (ipv4 m)"
  let ?a1 = "\<lparr>ip = ''203.0.113.5'', port = 40000, server = ''stun.miwifi.com''\<rparr>"
  let ?a2 = "\<lparr>ip = ''203.0.113.5'', port = 40000, server = ''stun.l.google.com''\<rparr>"
  have l2: "length [?m, ?m] = length default_stunServers"
    by (simp add: default_stunServers_def)
  have c2: "[?a1, ?a2] = collect_addresses ?slot default_stunServers [?m, ?m]"
    by (simp add: default_stunServers_def collect_addresses_def)
  have l1: "length [no_mapping, ?m] = length default_stunServers"
    by (simp add: default_stunServers_def)
  have c1: "[?a2] = collect_addresses ?slot default_stunServers [no_mapping, ?m]"
    by (simp add: default_stunServers_def collect_addresses_def no_mapping_def)
  have A: "\<exists>r. detectNATTypeFromAddresses [?a1, ?a2] UDP IPv4 default_stunServers = Some r
        \<and> length (mappedAddresses r) = 2 \<and> type r = ''Full Cone or Restricted Cone''"
    using same_ip_same_port_never_symmetric [OF l2 c2, of UDP IPv4] by simp
  have B: "\<exists>r. detectNATTypeFromAddresses [?a2] UDP IPv4 default_stunServers = Some r
        \<and> type r = ''Restricted Cone''"
    using same_ip_same_port_never_symmetric [OF l1 c1, of UDP IPv4]
    by (simp add: no_mapping_def)
  from A B show ?thesis by blast
qed

lemma collect_addresses_none:
  "length mapped = length servers \<Longrightarrow> \<forall>m \<in> set mapped. slot m = None \<Longrightarrow>
   collect_addresses slot servers mapped = []"
proof (induction mapped servers rule: list_induct2)
  case Nil
  show ?case by (simp add: collect_addresses_Nil)
next
  case (Cons m ms srv srvs)
  then show ?case by (simp add: collect_addresses_Cons)
qed

lemma collect_addresses_single:
  "length mapped = length servers \<Longrightarrow> i < length mapped \<Longrightarrow> slot (mapped ! i) = Some x \<Longrightarrow>
   \<forall>j < length mapped. j \<noteq> i \<longrightarrow> slot (mapped ! j) = None \<Longrightarrow>
   collect_addresses slot servers mapped = [\<lparr>ip = ip x, port = port x, server = name (servers ! i)\<rparr>]"
proof (induction mapped servers arbitrary: i rule: list_induct2)
  case Nil
  then show ?case by simp
next
  case (Cons m ms srv srvs)
  show ?case
  proof (cases i)
    case 0
    have "\<forall>m' \<in> set ms. slot m' = None"
    proof
      fix m' assume "m' \<in> set ms"
      then obtain k where k: "k < length ms" "ms ! k = m'" by (auto simp: in_set_conv_nth)
      from Cons.prems(3) k(1) 0 have "slot ((m # ms) ! Suc k) = None" by auto
      with k(2) show "slot m' = None" by simp
    qed
    with Cons.hyps have "collect_addresses slot srvs ms = []" by (rule collect_addresses_none)
    with Cons.prems(2) 0 show ?thesis by (simp add: collect_addresses_Cons)
  next
    case (Suc i')
    from Cons.prems(3) Suc have here: "slot m = None" by auto
    from Cons.prems(1) Suc have i': "i' < length ms" by simp
    from Cons.prems(2) Suc have x: "slot (ms ! i') = Some x" by simp
    have others: "\<forall>j < length ms. j \<noteq> i' \<longrightarrow> slot (ms ! j) = None"
    proof (intro allI impI)
      fix j assume "j < length ms" "j \<noteq> i'"
      with Cons.prems(3) Suc have "slot ((m # ms) ! Suc j) = None" by auto
      then show "slot (ms ! j) = None" by simp
    qed
    have "collect_addresses slot srvs ms = [\<lparr>ip = ip x, port = port x, server = name (srvs ! i')\<rparr>]"
      using i' x others by (rule Cons.IH)
    with here Suc show ?thesis by (simp add: collect_addresses_Cons)
  qed
qed

text \<open>
  Claim C3 as stated fails: with the two configured servers, a single mapping is
  classified \<open>Restricted Cone\<close>, not \<open>Full Cone or Restricted Cone\<close>.
\<close>

theorem single_mapping_counterexample:
  "detectNATTypeFromAddresses
     [\<lparr>ip = ''203.0.113.5'', port = 40000, server = ''stun.miwifi.com''\<rparr>]
     UDP IPv4 default_stunServers =
   Some \<lparr>type = ''Restricted Cone'',
         mappedAddresses = [\<lparr>ip = ''203.0.113.5'', port = 40000, server = ''stun.miwifi.com''\<rparr>]\<rparr>
   \<and> detectNATTypeFromAddresses
     [\<lparr>ip = ''203.0.113.5'', port = 40000, server = ''stun.miwifi.com''\<rparr>]
     UDP IPv4 default_stunServers \<noteq>
   Some \<lparr>type = ''Full Cone or Restricted Cone'',
         mappedAddresses = [\<lparr>ip = ''203.0.113.5'', port = 40000, server = ''stun.miwifi.com''\<rparr>]\<rparr>"
  by (simp add: default_stunServers_def)

text \<open>
  Claim C3, amended. When exactly one of the configured servers produced a mapping
  for the transport and family, the classifier returns that mapping, with the name of
  its server, as the only evidence; the category is \<open>Full Cone or Restricted Cone\<close>
  only if one server is configured, and with any other number of configured servers
  it is the tighter \<open>Restricted Cone\<close>.
\<close>

theorem single_mapping_classification:
  assumes "length mapped = length servers"
    and "i < length mapped"
    and "slot (mapped ! i) = Some x"
    and "\<forall>j < length mapped. j \<noteq> i \<longrightarrow> slot (mapped ! j) = None"
  shows "detectNATTypeFromAddresses (collect_addresses slot servers mapped) prot ver servers =
         Some \<lparr>type = (if length servers = 1
                        then ''Full Cone or Restricted Cone'' else ''Restricted Cone''),
               mappedAddresses = [\<lparr>ip = ip x, port = port x, server = name (servers ! i)\<rparr>]\<rparr>"
  unfolding collect_addresses_single [OF assms] by simp

text \<open>Of the two configured servers, only the second produced a TCP mapping.\<close>

theorem single_mapping_witness:
  "detectNATTypeFromAddresses
     (collect_addresses (\<lambda>m. tcp (ipv4 m)) default_stunServers
        [no_mapping,
         \<lparr>ipv4 = \<lparr>udp = None, tcp = Some \<lparr>ip = ''203.0.113.5'', port = 40000\<rparr>\<rparr>,
          ipv6 = \<lparr>udp = None, tcp = None\<rparr>\<rparr>])
     TCP IPv4 default_stunServers =
   Some \<lparr>type = ''Restricted Cone'',
         mappedAddresses = [\<lparr>ip = ''203.0.113.5'', port = 40000, server = ''stun.l.google.com''\<rparr>]\<rparr>"
proof -
  let ?m = "\<lparr>ipv4 = \<lparr>udp = None, tcp = Some \<lparr>ip = ''203.0.113.5'', port = 40000\<rparr>\<rparr>,
          ipv6 = \<lparr>udp = None, tcp = None\<rparr>\<rparr>"
  let ?mapped = "[no_mapping, ?m]"
  let ?slot = "\<lambda>m. tcp (ipv4 m)"
  have h1: "length ?mapped = length default_stunServers" by (simp add: default_stunServers_def)
  have h2: "(1::nat) < length ?mapped" by simp
  have h3: "?slot (?mapped ! 1) = Some \<lparr>ip = ''203.0.113.5'', port = 40000\<rparr>" by simp
  have h4: "\<forall>j < length ?mapped. j \<noteq> 1 \<longrightarrow> ?slot (?mapped ! j) = None"
    by (simp add: no_mapping_def less_Suc_eq)
  show ?thesis
    using single_mapping_classification [OF h1 h2 h3 h4, of TCP IPv4]
    by (simp add: default_stunServers_def)
qed

text \<open>
  With exactly one configured server the \<open>detect...NATType\<close> methods do not call the
  classifier at all: the category comes from the connectivity test and the evidence
  is empty.
\<close>

lemma single_server_bypass:
  "detectNATType slot flag prot ver [srv] (Fulfilled r) mapped =
     (if flag r then Some \<lparr>type = ''Full Cone or Restricted Cone'', mappedAddresses = []\<rparr>
      else None)"
  by (simp add: detectNATType_def)

section \<open>Properties of the overall network type\<close>

lemma testStunServers_none_reachable:
  assumes "\<forall>r \<in> set reach. r = Rejected \<or> (\<exists>c. r = Fulfilled c \<and> \<not> udpConnected c \<and> \<not> tcpConnected c)"
  shows "testStunServers (zip servers reach) = []"
  using assms
proof (induction servers arbitrary: reach)
  case Nil
  show ?case by simp
next
  case (Cons srv servers)
  show ?case
  proof (cases reach)
    case Nil
    then show ?thesis by simp
  next
    case (Cons r rs)
    from Cons.prems have rest: "\<forall>r \<in> set rs. r = Rejected \<or> (\<exists>c. r = Fulfilled c \<and> \<not> udpConnected c \<and> \<not> tcpConnected c)"
      unfolding Cons by simp
    from Cons.prems have here: "r = Rejected \<or> (\<exists>c. r = Fulfilled c \<and> \<not> udpConnected c \<and> \<not> tcpConnected c)"
      unfolding Cons by simp
    have IH: "testStunServers (zip servers rs) = []" using rest by (rule Cons.IH)
    from here show ?thesis
    proof
      assume "r = Rejected"
      then show ?thesis unfolding Cons using IH by simp
    next
      assume "\<exists>c. r = Fulfilled c \<and> \<not> udpConnected c \<and> \<not> tcpConnected c"
      then obtain c where "r = Fulfilled c" "\<not> udpConnected c" "\<not> tcpConnected c" by blast
      then show ?thesis unfolding Cons using IH by (simp add: testStunServer_def)
    qed
  qed
qed

lemma connection_deliver_no_srflx:
  assumes "conn_flags st = \<lparr>udpConnected = False, tcpConnected = False\<rparr>"
    and "if conn_resolved st
         then \<not> conn_timeout_set st
              \<and> conn_value st = Some \<lparr>udpConnected = False, tcpConnected = False\<rparr>
         else conn_timeout_set st \<and> conn_value st = None"
    and "\<forall>c. snd e = IceCandidate (Some c) \<longrightarrow> \<not> isUdpSrflx c \<and> \<not> isTcpSrflx c"
  shows "conn_flags (connection_deliver st e) = \<lparr>udpConnected = False, tcpConnected = False\<rparr>
         \<and> (if conn_resolved (connection_deliver st e)
              then \<not> conn_timeout_set (connection_deliver st e)
                   \<and> conn_value (connection_deliver st e)
                       = Some \<lparr>udpConnected = False, tcpConnected = False\<rparr>
              else conn_timeout_set (connection_deliver st e)
                   \<and> conn_value (connection_deliver st e) = None)"
proof (cases e)
  case (Pair now sig)
  from assms show ?thesis unfolding Pair
    by (cases sig rule: final_signal.cases)
       (auto simp: connection_finish_def split: if_splits)
qed

lemma foldl_connection_deliver_no_srflx:
  "conn_flags st = \<lparr>udpConnected = False, tcpConnected = False\<rparr> \<Longrightarrow>
   (if conn_resolved st
    then \<not> conn_timeout_set st
         \<and> conn_value st = Some \<lparr>udpConnected = False, tcpConnected = False\<rparr>
    else conn_timeout_set st \<and> conn_value st = None) \<Longrightarrow>
   \<forall>e \<in> set es. \<forall>c. snd e = IceCandidate (Some c) \<longrightarrow> \<not> isUdpSrflx c \<and> \<not> isTcpSrflx c \<Longrightarrow>
   conn_flags (foldl connection_deliver st es) = \<lparr>udpConnected = False, tcpConnected = False\<rparr>
   \<and> (if conn_resolved (foldl connection_deliver st es)
        then \<not> conn_timeout_set (foldl connection_deliver st es)
             \<and> conn_value (foldl connection_deliver st es)
                 = Some \<lparr>udpConnected = False, tcpConnected = False\<rparr>
        else conn_timeout_set (foldl connection_deliver st es)
             \<and> conn_value (foldl connection_deliver st es) = None)"
proof (induction es arbitrary: st)
  case Nil
  then show ?case by simp
next
  case (Cons e es)
  have here: "\<forall>c. snd e = IceCandidate (Some c) \<longrightarrow> \<not> isUdpSrflx c \<and> \<not> isTcpSrflx c"
    using Cons.prems(3) by simp
  have rest: "\<forall>e \<in> set es. \<forall>c. snd e = IceCandidate (Some c) \<longrightarrow> \<not> isUdpSrflx c \<and> \<not> isTcpSrflx c"
    using Cons.prems(3) by simp
  note step = connection_deliver_no_srflx [OF Cons.prems(1) Cons.prems(2) here]
  show ?case
    using Cons.IH [OF conjunct1 [OF step] conjunct2 [OF step] rest] by simp
qed

text \<open>
  A server whose connection produces no server-reflexive candidate, on either
  transport, is not reachable: the connectivity test resolves with both flags false.
\<close>

lemma no_srflx_not_reachable:
  assumes "\<forall>e \<in> set sched. \<forall>c. snd e = IceCandidate (Some c) \<longrightarrow> \<not> isUdpSrflx c \<and> \<not> isTcpSrflx c"
  shows "testStunServerConnection sched = Some \<lparr>udpConnected = False, tcpConnected = False\<rparr>"
proof -
  let ?FF = "\<lparr>udpConnected = False, tcpConnected = False\<rparr>"
  let ?st1 = "foldl connection_deliver connection_init (takeWhile before_timeout sched)"
  let ?st2 = "if conn_timeout_set ?st1 then connection_finish ?st1 else ?st1"
  have early: "\<forall>e \<in> set (takeWhile before_timeout sched).
                 \<forall>c. snd e = IceCandidate (Some c) \<longrightarrow> \<not> isUdpSrflx c \<and> \<not> isTcpSrflx c"
    using assms by (auto dest: set_takeWhileD)
  have late: "\<forall>e \<in> set (dropWhile before_timeout sched).
                 \<forall>c. snd e = IceCandidate (Some c) \<longrightarrow> \<not> isUdpSrflx c \<and> \<not> isTcpSrflx c"
    using assms by (auto dest: set_dropWhileD)
  have p1: "conn_flags ?st1 = ?FF
      \<and> (if conn_resolved ?st1
          then \<not> conn_timeout_set ?st1 \<and> conn_value ?st1 = Some ?FF
          else conn_timeout_set ?st1 \<and> conn_value ?st1 = None)"
    using _ _ early by (rule foldl_connection_deliver_no_srflx) (simp_all add: connection_init_def)
  then have p2: "conn_flags ?st2 = ?FF" "conn_resolved ?st2"
      "\<not> conn_timeout_set ?st2 \<and> conn_value ?st2 = Some ?FF"
    by (auto simp: connection_finish_def split: if_splits)
  have "conn_flags (foldl connection_deliver ?st2 (dropWhile before_timeout sched)) = ?FF
      \<and> (if conn_resolved (foldl connection_deliver ?st2 (dropWhile before_timeout sched))
          then \<not> conn_timeout_set (foldl connection_deliver ?st2 (dropWhile before_timeout sched))
               \<and> conn_value (foldl connection_deliver ?st2 (dropWhile before_timeout sched)) = Some ?FF
          else conn_timeout_set (foldl connection_deliver ?st2 (dropWhile before_timeout sched))
               \<and> conn_value (foldl connection_deliver ?st2 (dropWhile before_timeout sched)) = None)"
    using p2(1) _ late by (rule foldl_connection_deliver_no_srflx) (use p2 in simp)
  moreover have "conn_value (foldl connection_deliver ?st2 (dropWhile before_timeout sched)) \<noteq> None"
  proof -
    have keep: "conn_value st \<noteq> None \<Longrightarrow> conn_value (foldl connection_deliver st es) \<noteq> None" for st es
    proof (induction es arbitrary: st)
      case Nil
      then show ?case by simp
    next
      case (Cons e es)
      have "conn_value (connection_deliver st e) \<noteq> None"
        using Cons.prems
        by (cases e; cases "snd e" rule: final_signal.cases)
           (auto simp: connection_finish_def split: if_splits)
      then show ?case using Cons.IH by simp
    qed
    from p2(3) show ?thesis by (intro keep) simp
  qed
  ultimately show ?thesis
    unfolding testStunServerConnection_def Let_def by (auto split: if_splits)
qed

text \<open>
  Claim C6. Suppose no server is reachable: for every server the connectivity test
  made by \<open>testStunServers\<close> either rejected or found neither a UDP nor a TCP
  server-reflexive candidate. Then every record that \<open>detectNetworkType\<close> returns
  has the firewall label as its type, whatever the other detection results are; and
  a record is returned unless one of the two uncaught promises rejects.
\<close>

theorem no_reachable_server_firewalled:
  assumes "\<forall>r \<in> set reach. r = Rejected \<or> (\<exists>c. r = Fulfilled c \<and> \<not> udpConnected c \<and> \<not> tcpConnected c)"
  shows "(\<forall>res. detectNetworkType servers reach conn pub r4u r4t r6u r6t speed = Fulfilled res
            \<longrightarrow> result_type res = FirewallBlocked \<and> stunServersReachable (details res) = 0)
         \<and> (promise_all conn \<noteq> Rejected \<and> pub \<noteq> Rejected
            \<longrightarrow> (\<exists>res. detectNetworkType servers reach conn pub r4u r4t r6u r6t speed = Fulfilled res))"
proof -
  have none: "testStunServers (zip servers reach) = []"
    using assms by (rule testStunServers_none_reachable)
  show ?thesis
    by (cases "promise_all conn"; cases pub)
       (simp_all add: detectNetworkType_def none decide_networkType_def Let_def)
qed

text \<open>
  Scenario C, with every other result pointing elsewhere: the later connectivity
  tests succeed, a public address is seen and UDP is classified symmetric.
\<close>

theorem no_reachable_server_witness:
  "\<exists>res. detectNetworkType default_stunServers
       [Fulfilled \<lparr>udpConnected = False, tcpConnected = False\<rparr>, Rejected]
       [Fulfilled \<lparr>udpConnected = True, tcpConnected = False\<rparr>,
        Fulfilled \<lparr>udpConnected = False, tcpConnected = True\<rparr>]
       (Fulfilled True)
       (Some \<lparr>type = ''Symmetric NAT'', mappedAddresses = []\<rparr>) None None None
       (\<lambda>target. Rejected) = Fulfilled res
     \<and> result_type res = FirewallBlocked"
proof -
  have h: "\<forall>r \<in> set [Fulfilled \<lparr>udpConnected = False, tcpConnected = False\<rparr>, Rejected].
             r = Rejected \<or> (\<exists>c. r = Fulfilled c \<and> \<not> udpConnected c \<and> \<not> tcpConnected c)"
    by simp
  note T = no_reachable_server_firewalled [OF h, of default_stunServers
        "[Fulfilled \<lparr>udpConnected = True, tcpConnected = False\<rparr>,
          Fulfilled \<lparr>udpConnected = False, tcpConnected = True\<rparr>]"
        "Fulfilled True" "Some \<lparr>type = ''Symmetric NAT'', mappedAddresses = []\<rparr>"
        None None None "\<lambda>target. Rejected"]
  from T have "\<exists>res. detectNetworkType default_stunServers
       [Fulfilled \<lparr>udpConnected = False, tcpConnected = False\<rparr>, Rejected]
       [Fulfilled \<lparr>udpConnected = True, tcpConnected = False\<rparr>,
        Fulfilled \<lparr>udpConnected = False, tcpConnected = True\<rparr>]
       (Fulfilled True)
       (Some \<lparr>type = ''Symmetric NAT'', mappedAddresses = []\<rparr>) None None None
       (\<lambda>target. Rejected) = Fulfilled res"
    by simp
  with T show ?thesis by blast
qed

section \<open>Properties of the rendezvous probe\<close>

lemmas candidate_eval =
  record_candidate_def isUdpSrflx_def isTcpSrflx_def parse_candidate_def split_space_def
  parseInt_def isDigit_def isWhiteSpace_def isIPv6_def Let_def

lemma probe_wf_init: "probe_wf probe_init"
  by (simp add: probe_wf_def probe_init_def)

text \<open>The run of a probe whose executor ran to its end.\<close>

lemma getMappedAddress_run_Constructed:
  "getMappedAddress_run Constructed sched =
     (let st1 = foldl deliver probe_init (takeWhile before_timeout sched);
          st2 = (if timeout_set st1 then finish 5000 st1 else st1)
      in foldl deliver st2 (dropWhile before_timeout sched))"
  by (simp add: getMappedAddress_run_def executor_def probe_init_def)

text \<open>The run of a probe whose executor threw: only the timer fires.\<close>

lemma getMappedAddress_run_thrown:
  "c \<noteq> Constructed \<Longrightarrow> getMappedAddress_run c sched = finish 5000 (executor c)"
  by (cases c) (simp_all add: getMappedAddress_run_def executor_def probe_init_def)

text \<open>No signal and no timer changes whether the executor threw.\<close>

lemma rejected_finish: "rejected (finish now st) = rejected st"
  by (simp add: finish_def)

lemma rejected_deliver: "rejected (deliver st e) = rejected st"
proof (cases e)
  case (Pair now sig)
  show ?thesis unfolding Pair
    by (cases sig) (simp_all add: onicecandidate_def rejected_finish split: option.splits)
qed

lemma rejected_foldl_deliver: "rejected (foldl deliver st es) = rejected st"
  by (induction es arbitrary: st) (simp_all add: rejected_deliver)

lemma probe_wf_finish: "probe_wf st \<Longrightarrow> probe_wf (finish now st)"
  by (auto simp: probe_wf_def finish_def split: if_splits)

lemma probe_wf_deliver: "probe_wf st \<Longrightarrow> probe_wf (deliver st e)"
proof (cases e)
  case (Pair now sig)
  assume wf: "probe_wf st"
  show ?thesis
  proof (cases sig)
    case (IceCandidate c)
    show ?thesis
    proof (cases c)
      case None
      with wf show ?thesis
        unfolding Pair IceCandidate by (simp add: onicecandidate_def probe_wf_finish)
    next
      case (Some line)
      with wf show ?thesis
        unfolding Pair IceCandidate
        by (auto simp: onicecandidate_def probe_wf_def split: if_splits)
    qed
  next
    case OfferRejected
    with wf show ?thesis unfolding Pair by (simp add: probe_wf_finish)
  qed
qed

lemma deliver_resolved: "probe_wf st \<Longrightarrow> resolved st \<Longrightarrow> deliver st e = st"
proof (cases e)
  case (Pair now sig)
  assume "probe_wf st" "resolved st"
  then show ?thesis unfolding Pair
    by (cases sig) (auto simp: probe_wf_def finish_def split: if_splits)
qed

lemma foldl_deliver_resolved:
  "probe_wf st \<Longrightarrow> resolved st \<Longrightarrow> foldl deliver st es = st"
  by (induction es) (simp_all add: deliver_resolved)

lemma probe_wf_foldl: "probe_wf st \<Longrightarrow> probe_wf (foldl deliver st es)"
  by (induction es arbitrary: st) (simp_all add: probe_wf_deliver)

lemma foldl_deliver_candidates:
  "pc_open st \<Longrightarrow>
   foldl deliver st (candidates_at tcs) =
     st\<lparr>addresses := foldl record_candidate (addresses st) (map snd tcs)\<rparr>"
proof (induction tcs arbitrary: st)
  case Nil
  show ?case by (simp add: candidates_at_def)
next
  case (Cons tc tcs)
  let ?st' = "st\<lparr>addresses := record_candidate (addresses st) (snd tc)\<rparr>"
  have step: "deliver st (fst tc, IceCandidate (Some (snd tc))) = ?st'"
    using Cons.prems by (simp add: onicecandidate_def)
  have "pc_open ?st'" using Cons.prems by simp
  then have "foldl deliver ?st' (candidates_at tcs) =
     ?st'\<lparr>addresses := foldl record_candidate (addresses ?st') (map snd tcs)\<rparr>"
    by (rule Cons.IH)
  then show ?case using step by (simp add: candidates_at_def)
qed

lemma takeWhile_candidates_at:
  "\<forall>tc \<in> set tcs. fst tc < 5000 \<Longrightarrow>
   takeWhile before_timeout (candidates_at tcs @ rest) = candidates_at tcs @ takeWhile before_timeout rest"
  by (induction tcs) (simp_all add: candidates_at_def before_timeout_def)

lemma dropWhile_candidates_at:
  "\<forall>tc \<in> set tcs. fst tc < 5000 \<Longrightarrow>
   dropWhile before_timeout (candidates_at tcs @ rest) = dropWhile before_timeout rest"
  by (induction tcs) (simp_all add: candidates_at_def before_timeout_def)

lemma deliver_final:
  "pc_open st \<Longrightarrow> final_signal sig \<Longrightarrow> deliver st (now, sig) = finish now st"
  by (cases sig rule: final_signal.cases) (simp_all add: onicecandidate_def)


lemma getMappedAddress_run_shape:
  assumes times: "\<forall>tc \<in> set tcs. fst tc < 5000"
    and rest: "case rest of [] \<Rightarrow> True | e # later \<Rightarrow> \<not> before_timeout e \<or> final_signal (snd e)"
  shows "getMappedAddress_run Constructed (candidates_at tcs @ rest) =
         finish (case rest of [] \<Rightarrow> 5000 | e # later \<Rightarrow> if before_timeout e then fst e else 5000)
           (probe_init\<lparr>addresses := foldl record_candidate no_mapping (map snd tcs)\<rparr>)"
proof -
  let ?A = "foldl record_candidate no_mapping (map snd tcs)"
  let ?stA = "probe_init\<lparr>addresses := ?A\<rparr>"
  have cands: "foldl deliver probe_init (candidates_at tcs) = ?stA"
    using foldl_deliver_candidates [of probe_init tcs] by (simp add: probe_init_def)
  have wfA: "probe_wf ?stA" by (simp add: probe_wf_def probe_init_def)
  have openA: "pc_open ?stA" and timerA: "timeout_set ?stA"
    by (simp_all add: probe_init_def)
  have fin: "\<And>t. probe_wf (finish t ?stA) \<and> resolved (finish t ?stA) \<and> \<not> timeout_set (finish t ?stA)"
    using wfA by (simp add: probe_wf_finish) (simp add: finish_def probe_init_def)
  show ?thesis
  proof (cases rest)
    case Nil
    have tw: "takeWhile before_timeout (candidates_at tcs @ rest) = candidates_at tcs"
      using takeWhile_candidates_at [OF times, of rest] Nil by simp
    have dw: "dropWhile before_timeout (candidates_at tcs @ rest) = []"
      using dropWhile_candidates_at [OF times, of rest] Nil by simp
    show ?thesis
      unfolding getMappedAddress_run_Constructed tw dw Let_def cands using timerA Nil by simp
  next
    case (Cons e later)
    show ?thesis
    proof (cases "before_timeout e")
      case False
      have tw: "takeWhile before_timeout (candidates_at tcs @ rest) = candidates_at tcs"
        using takeWhile_candidates_at [OF times, of rest] Cons False by simp
      have dw: "dropWhile before_timeout (candidates_at tcs @ rest) = e # later"
        using dropWhile_candidates_at [OF times, of rest] Cons False by simp
      have "foldl deliver (finish 5000 ?stA) (e # later) = finish 5000 ?stA"
        by (rule foldl_deliver_resolved) (simp_all add: fin)
      then show ?thesis
        unfolding getMappedAddress_run_Constructed tw dw Let_def cands using timerA Cons False by simp
    next
      case True
      with rest Cons have final: "final_signal (snd e)" by simp
      have tw: "takeWhile before_timeout (candidates_at tcs @ rest)
                = candidates_at tcs @ e # takeWhile before_timeout later"
        using takeWhile_candidates_at [OF times, of rest] Cons True by simp
      have dw: "dropWhile before_timeout (candidates_at tcs @ rest) = dropWhile before_timeout later"
        using dropWhile_candidates_at [OF times, of rest] Cons True by simp
      have "deliver ?stA (fst e, snd e) = finish (fst e) ?stA"
        using openA final by (rule deliver_final)
      then have step: "deliver ?stA e = finish (fst e) ?stA" by simp
      have "foldl deliver (finish (fst e) ?stA) (takeWhile before_timeout later)
            = finish (fst e) ?stA"
        by (rule foldl_deliver_resolved) (simp_all add: fin)
      then have st1: "foldl deliver ?stA (e # takeWhile before_timeout later) = finish (fst e) ?stA"
        using step by simp
      have st3: "foldl deliver (finish (fst e) ?stA) (dropWhile before_timeout later)
                 = finish (fst e) ?stA"
        by (rule foldl_deliver_resolved) (simp_all add: fin)
      show ?thesis
        unfolding getMappedAddress_run_Constructed tw dw Let_def foldl_append cands st1
        using fin [of "fst e"] st3 Cons True by simp
    qed
  qed
qed

text \<open>
  Claim C7 as stated fails. The connection is constructed; two UDP candidates for the same address arrive at 10 ms
  and 20 ms, the end of candidates at 30 ms: the probe finishes at 30 ms, not at 10 ms,
  and its result holds the port of the second candidate, not of the first.
\<close>

theorem first_match_counterexample:
  "getMappedAddress Constructed
     [(10, IceCandidate (Some ''candidate:1 1 UDP 1685987327 203.0.113.5 40000 typ srflx raddr 0.0.0.0 rport 0'')),
      (20, IceCandidate (Some ''candidate:2 1 UDP 1685987327 203.0.113.5 51000 typ srflx raddr 0.0.0.0 rport 0'')),
      (30, IceCandidate None)]
   = Some (Fulfilled \<lparr>ipv4 = \<lparr>udp = Some \<lparr>ip = ''203.0.113.5'', port = 51000\<rparr>, tcp = None\<rparr>,
                      ipv6 = \<lparr>udp = None, tcp = None\<rparr>\<rparr>)
   \<and> resolved_at (getMappedAddress_run Constructed
     [(10, IceCandidate (Some ''candidate:1 1 UDP 1685987327 203.0.113.5 40000 typ srflx raddr 0.0.0.0 rport 0'')),
      (20, IceCandidate (Some ''candidate:2 1 UDP 1685987327 203.0.113.5 51000 typ srflx raddr 0.0.0.0 rport 0'')),
      (30, IceCandidate None)]) = Some 30"
  by (simp add: getMappedAddress_def getMappedAddress_run_def executor_def before_timeout_def
        probe_init_def onicecandidate_def finish_def candidate_eval no_mapping_def)

text \<open>
  Claim C7, amended. The probe, its connection constructed, does not finish at a
  matching event. Every schedule
  is a run of candidate events before the timeout followed by a remainder that is
  empty or starts with the end-of-candidates signal, a rejected offer, or an event at
  or after 5000 ms. The probe finishes at that first signal, or at 5000 ms; its result
  is what the candidate lines before it wrote into the four slots, each accepted line
  overwriting the slot of its transport and family; whatever comes later changes
  nothing.
\<close>

theorem probe_collects_until_finished:
  assumes "\<forall>tc \<in> set tcs. fst tc < 5000"
    and "case rest of [] \<Rightarrow> True | e # later \<Rightarrow> \<not> before_timeout e \<or> final_signal (snd e)"
  shows "getMappedAddress Constructed (candidates_at tcs @ rest) =
           Some (Fulfilled (foldl record_candidate no_mapping (map snd tcs)))
         \<and> resolved_at (getMappedAddress_run Constructed (candidates_at tcs @ rest)) =
           Some (case rest of [] \<Rightarrow> 5000 | e # later \<Rightarrow> if before_timeout e then fst e else 5000)"
  unfolding getMappedAddress_def getMappedAddress_run_shape [OF assms]
  by (simp add: finish_def probe_init_def)

theorem probe_collects_witness:
  "getMappedAddress Constructed
     (candidates_at
        [(10, ''candidate:1 1 UDP 1685987327 203.0.113.5 40000 typ srflx raddr 0.0.0.0 rport 0''),
         (20, ''candidate:3 1 TCP 1685987327 2001:db8::7 9 typ srflx raddr :: rport 0''),
         (25, ''candidate:2 1 UDP 1685987327 203.0.113.5 51000 typ srflx raddr 0.0.0.0 rport 0'')]
      @ [(30, IceCandidate None),
         (40, IceCandidate (Some ''candidate:4 1 UDP 1685987327 198.51.100.1 40000 typ srflx''))])
   = Some (Fulfilled \<lparr>ipv4 = \<lparr>udp = Some \<lparr>ip = ''203.0.113.5'', port = 51000\<rparr>, tcp = None\<rparr>,
                      ipv6 = \<lparr>udp = None, tcp = Some \<lparr>ip = ''2001:db8::7'', port = 9\<rparr>\<rparr>\<rparr>)
   \<and> resolved_at (getMappedAddress_run Constructed
     (candidates_at
        [(10, ''candidate:1 1 UDP 1685987327 203.0.113.5 40000 typ srflx raddr 0.0.0.0 rport 0''),
         (20, ''candidate:3 1 TCP 1685987327 2001:db8::7 9 typ srflx raddr :: rport 0''),
         (25, ''candidate:2 1 UDP 1685987327 203.0.113.5 51000 typ srflx raddr 0.0.0.0 rport 0'')]
      @ [(30, IceCandidate None),
         (40, IceCandidate (Some ''candidate:4 1 UDP 1685987327 198.51.100.1 40000 typ srflx''))]))
     = Some 30"
proof -
  let ?tcs = "[(10::nat, ''candidate:1 1 UDP 1685987327 203.0.113.5 40000 typ srflx raddr 0.0.0.0 rport 0''),
         (20, ''candidate:3 1 TCP 1685987327 2001:db8::7 9 typ srflx raddr :: rport 0''),
         (25, ''candidate:2 1 UDP 1685987327 203.0.113.5 51000 typ srflx raddr 0.0.0.0 rport 0'')]"
  let ?rest = "[(30::nat, IceCandidate None),
         (40, IceCandidate (Some ''candidate:4 1 UDP 1685987327 198.51.100.1 40000 typ srflx''))]"
  have times: "\<forall>tc \<in> set ?tcs. fst tc < 5000" by simp
  have rest: "case ?rest of [] \<Rightarrow> True | e # later \<Rightarrow> \<not> before_timeout e \<or> final_signal (snd e)"
    by simp
  have slots: "foldl record_candidate no_mapping (map snd ?tcs) =
     \<lparr>ipv4 = \<lparr>udp = Some \<lparr>ip = ''203.0.113.5'', port = 51000\<rparr>, tcp = None\<rparr>,
      ipv6 = \<lparr>udp = None, tcp = Some \<lparr>ip = ''2001:db8::7'', port = 9\<rparr>\<rparr>\<rparr>"
    by (simp add: candidate_eval no_mapping_def)
  show ?thesis
    using probe_collects_until_finished [OF times rest]
    unfolding slots by (simp add: before_timeout_def)
qed

lemma not_accepted_record: "\<not> accepted c \<Longrightarrow> record_candidate a c = a"
  by (auto simp: accepted_def record_candidate_def split: option.splits)

lemma deliver_addresses_unchanged:
  assumes "\<forall>c. snd e = IceCandidate (Some c) \<longrightarrow> \<not> accepted c"
  shows "addresses (deliver st e) = addresses st"
proof (cases e)
  case (Pair now sig)
  show ?thesis
  proof (cases sig)
    case (IceCandidate c)
    show ?thesis
    proof (cases c)
      case None
      then show ?thesis unfolding Pair IceCandidate
        by (simp add: onicecandidate_def finish_def)
    next
      case (Some line)
      with assms Pair IceCandidate have "\<not> accepted line" by simp
      then show ?thesis unfolding Pair IceCandidate Some
        by (simp add: onicecandidate_def not_accepted_record)
    qed
  next
    case OfferRejected
    then show ?thesis unfolding Pair by (simp add: finish_def)
  qed
qed

lemma foldl_deliver_addresses_unchanged:
  "\<forall>e \<in> set es. \<forall>c. snd e = IceCandidate (Some c) \<longrightarrow> \<not> accepted c \<Longrightarrow>
   addresses (foldl deliver st es) = addresses st"
proof (induction es arbitrary: st)
  case Nil
  show ?case by simp
next
  case (Cons e es)
  have "addresses (foldl deliver (deliver st e) es) = addresses (deliver st e)"
    using Cons.prems by (intro Cons.IH) simp
  also have "\<dots> = addresses st"
    using Cons.prems by (intro deliver_addresses_unchanged) simp
  finally show ?case by simp
qed

lemma deliver_not_final: "\<not> final_signal (snd e) \<Longrightarrow> resolved (deliver st e) = resolved st"
proof (cases e)
  case (Pair now sig)
  assume "\<not> final_signal (snd e)"
  then show ?thesis unfolding Pair
    by (cases sig rule: final_signal.cases) (simp_all add: onicecandidate_def)
qed

lemma foldl_deliver_not_final:
  "\<forall>e \<in> set es. \<not> final_signal (snd e) \<Longrightarrow> resolved (foldl deliver st es) = resolved st"
  by (induction es arbitrary: st) (simp_all add: deliver_not_final)

lemma deliver_resolved_at_bound:
  assumes "\<forall>t. resolved_at st = Some t \<longrightarrow> t \<le> B" and "fst e \<le> B"
  shows "\<forall>t. resolved_at (deliver st e) = Some t \<longrightarrow> t \<le> B"
proof (cases e)
  case (Pair now sig)
  with assms(2) have "now \<le> B" by simp
  with assms(1) show ?thesis unfolding Pair
    by (cases sig rule: final_signal.cases)
       (auto simp: onicecandidate_def finish_def split: if_splits)
qed

lemma foldl_deliver_resolved_at_bound:
  "\<forall>t. resolved_at st = Some t \<longrightarrow> t \<le> B \<Longrightarrow> \<forall>e \<in> set es. fst e \<le> B \<Longrightarrow>
   \<forall>t. resolved_at (foldl deliver st es) = Some t \<longrightarrow> t \<le> B"
proof (induction es arbitrary: st)
  case Nil
  then show ?case by simp
next
  case (Cons e es)
  have "\<forall>t. resolved_at (deliver st e) = Some t \<longrightarrow> t \<le> B"
    using Cons.prems by (intro deliver_resolved_at_bound) simp_all
  then have "\<forall>t. resolved_at (foldl deliver (deliver st e) es) = Some t \<longrightarrow> t \<le> B"
    using Cons.prems by (intro Cons.IH) simp_all
  then show ?case by simp
qed

text \<open>After the timer the state does not move: the run is the state at the timer.\<close>

lemma getMappedAddress_run_timer:
  "getMappedAddress_run Constructed sched =
     (let st1 = foldl deliver probe_init (takeWhile before_timeout sched)
      in if timeout_set st1 then finish 5000 st1 else st1)"
proof -
  let ?st1 = "foldl deliver probe_init (takeWhile before_timeout sched)"
  let ?st2 = "if timeout_set ?st1 then finish 5000 ?st1 else ?st1"
  have wf1: "probe_wf ?st1" using probe_wf_init by (rule probe_wf_foldl)
  have wf2: "probe_wf ?st2" using wf1 by (simp add: probe_wf_finish)
  have res2: "resolved ?st2"
    using wf1 by (auto simp: probe_wf_def finish_def split: if_splits)
  have "foldl deliver ?st2 (dropWhile before_timeout sched) = ?st2"
    using wf2 res2 by (rule foldl_deliver_resolved)
  then show ?thesis unfolding getMappedAddress_run_Constructed Let_def .
qed

text \<open>
  A rejection of a probe reaches the \<open>detect...NATType\<close> method through
  \<open>Promise.all\<close> and is caught there: with more than one server the answer is
  \<open>null\<close>.
\<close>

lemma promise_all_rejected: "Rejected \<in> set ps \<Longrightarrow> promise_all ps = Rejected"
proof (induction ps)
  case Nil
  then show ?case by simp
next
  case (Cons p ps)
  show ?case
  proof (cases p)
    case Rejected
    then show ?thesis by simp
  next
    case (Fulfilled v)
    with Cons.prems have "Rejected \<in> set ps" by simp
    then have "promise_all ps = Rejected" by (rule Cons.IH)
    then show ?thesis unfolding Fulfilled by simp
  qed
qed

lemma rejected_probe_caught:
  assumes "length stunServers \<noteq> 1" and "Rejected \<in> set probes"
  shows "detectNATType slot flag prot ver stunServers connectionResult (promise_all probes) = None"
  using assms(1) promise_all_rejected [OF assms(2)] by (simp add: detectNATType_def)

text \<open>
  Claim C8 as stated fails for a probe whose connection cannot be built. The
  constructor of the peer connection, or \<open>createDataChannel\<close>, throws inside the
  executor: no candidate line is accepted, yet the probe does not return the object
  with its four slots null, it rejects.
\<close>

theorem probe_rejection_counterexample:
  "getMappedAddress ConstructorThrows [] = Some Rejected
   \<and> getMappedAddress DataChannelThrows [] = Some Rejected"
  by (simp add: getMappedAddress_def getMappedAddress_run_def executor_def probe_init_def
        finish_def)

text \<open>
  Claim C8, amended. Whatever the transport does, the promise of the probe settles,
  at a time of at most 5000 ms after its start. When the connection was constructed
  the probe resolves: exactly when the timer fires if the transport sent neither
  the end-of-candidates signal nor a rejection of the offer before it, and with the
  object with its four slots null if no candidate line was accepted before the
  timer. When the constructor or \<open>createDataChannel\<close> throws the probe returns no
  result: the promise rejects at the start, whatever the schedule.
\<close>

theorem probe_settles_within_timeout:
  "(\<exists>t \<le> 5000. settled_at (getMappedAddress_run c sched) = Some t)
   \<and> (\<exists>outcome. getMappedAddress c sched = Some outcome)
   \<and> (c = Constructed \<longrightarrow>
        (\<exists>t \<le> 5000. resolved_at (getMappedAddress_run c sched) = Some t)
        \<and> (\<exists>res. getMappedAddress c sched = Some (Fulfilled res))
        \<and> ((\<forall>e \<in> set (takeWhile before_timeout sched). \<not> final_signal (snd e))
             \<longrightarrow> resolved_at (getMappedAddress_run c sched) = Some 5000)
        \<and> ((\<forall>e \<in> set (takeWhile before_timeout sched).
                \<forall>line. snd e = IceCandidate (Some line) \<longrightarrow> \<not> accepted line)
             \<longrightarrow> getMappedAddress c sched = Some (Fulfilled no_mapping)))
   \<and> (c \<noteq> Constructed \<longrightarrow>
        getMappedAddress c sched = Some Rejected
        \<and> settled_at (getMappedAddress_run c sched) = Some 0)"
proof (cases "c = Constructed")
  case False
  have run: "getMappedAddress_run c sched = finish 5000 (executor c)"
    using False by (rule getMappedAddress_run_thrown)
  have rej: "rejected (executor c)"
    using False by (cases c) (simp_all add: executor_def)
  have R: "rejected (getMappedAddress_run c sched)"
    unfolding run rejected_finish by (rule rej)
  have S: "settled_at (getMappedAddress_run c sched) = Some 0"
    using R by (simp add: settled_at_def)
  have G: "getMappedAddress c sched = Some Rejected"
    using R by (simp add: getMappedAddress_def)
  from False S G show ?thesis by simp
next
  case True
  let ?st1 = "foldl deliver probe_init (takeWhile before_timeout sched)"
  let ?st2 = "if timeout_set ?st1 then finish 5000 ?st1 else ?st1"
  have run: "getMappedAddress_run c sched = ?st2"
    unfolding True getMappedAddress_run_timer Let_def ..
  have wf1: "probe_wf ?st1" using probe_wf_init by (rule probe_wf_foldl)
  have res2: "resolved ?st2"
    using wf1 by (auto simp: probe_wf_def finish_def split: if_splits)
  have "rejected ?st1 = rejected probe_init" by (rule rejected_foldl_deliver)
  then have nrej: "\<not> rejected ?st2" by (simp add: rejected_finish probe_init_def)
  have early: "\<forall>e \<in> set (takeWhile before_timeout sched). fst e \<le> 5000"
    by (auto dest!: set_takeWhileD simp: before_timeout_def)
  have "\<forall>t. resolved_at probe_init = Some t \<longrightarrow> t \<le> 5000" by (simp add: probe_init_def)
  then have b1: "\<forall>t. resolved_at ?st1 = Some t \<longrightarrow> t \<le> 5000"
    using early by (rule foldl_deliver_resolved_at_bound)
  have A: "\<exists>t \<le> 5000. resolved_at (getMappedAddress_run c sched) = Some t"
    unfolding run using wf1 b1 by (auto simp: probe_wf_def finish_def split: if_splits)
  have S: "settled_at (getMappedAddress_run c sched) = resolved_at (getMappedAddress_run c sched)"
    unfolding run using nrej by (simp add: settled_at_def)
  have B: "getMappedAddress c sched = Some (Fulfilled (addresses ?st2))"
    unfolding getMappedAddress_def run Let_def using res2 nrej by simp
  have C: "resolved_at (getMappedAddress_run c sched) = Some 5000"
    if "\<forall>e \<in> set (takeWhile before_timeout sched). \<not> final_signal (snd e)"
  proof -
    from that have "resolved ?st1 = resolved probe_init" by (rule foldl_deliver_not_final)
    then have "\<not> resolved ?st1" by (simp add: probe_init_def)
    with wf1 show ?thesis unfolding run by (auto simp: probe_wf_def finish_def split: if_splits)
  qed
  have D: "getMappedAddress c sched = Some (Fulfilled no_mapping)"
    if "\<forall>e \<in> set (takeWhile before_timeout sched).
           \<forall>line. snd e = IceCandidate (Some line) \<longrightarrow> \<not> accepted line"
  proof -
    from that have "addresses ?st1 = addresses probe_init"
      by (rule foldl_deliver_addresses_unchanged)
    then have "addresses ?st2 = no_mapping" by (simp add: probe_init_def finish_def)
    then show ?thesis unfolding B by simp
  qed
  from A have A': "\<exists>t \<le> 5000. settled_at (getMappedAddress_run c sched) = Some t"
    unfolding S .
  from B have B1: "\<exists>outcome. getMappedAddress c sched = Some outcome" by blast
  from B have B2: "\<exists>res. getMappedAddress c sched = Some (Fulfilled res)" by blast
  from True A A' B1 B2 C D show ?thesis by blast
qed

text \<open>
  A transport that reports one host candidate and completes only after 7000 ms, on
  a constructed connection and on one whose constructor threw.
\<close>

theorem probe_settles_witness:
  "resolved_at (getMappedAddress_run Constructed
      [(100, IceCandidate (Some ''candidate:0 1 UDP 2122252543 192.168.1.7 54321 typ host'')),
       (7000, IceCandidate None)]) = Some 5000
   \<and> getMappedAddress Constructed
      [(100, IceCandidate (Some ''candidate:0 1 UDP 2122252543 192.168.1.7 54321 typ host'')),
       (7000, IceCandidate None)] = Some (Fulfilled no_mapping)
   \<and> getMappedAddress ConstructorThrows
      [(100, IceCandidate (Some ''candidate:0 1 UDP 2122252543 192.168.1.7 54321 typ host'')),
       (7000, IceCandidate None)] = Some Rejected
   \<and> settled_at (getMappedAddress_run ConstructorThrows
      [(100, IceCandidate (Some ''candidate:0 1 UDP 2122252543 192.168.1.7 54321 typ host'')),
       (7000, IceCandidate None)]) = Some 0"
proof -
  let ?sched = "[(100::nat, IceCandidate (Some ''candidate:0 1 UDP 2122252543 192.168.1.7 54321 typ host'')),
       (7000, IceCandidate None)]"
  have nf: "\<forall>e \<in> set (takeWhile before_timeout ?sched). \<not> final_signal (snd e)"
    by (simp add: before_timeout_def)
  have na: "\<forall>e \<in> set (takeWhile before_timeout ?sched).
           \<forall>line. snd e = IceCandidate (Some line) \<longrightarrow> \<not> accepted line"
    by (simp add: before_timeout_def accepted_def isUdpSrflx_def isTcpSrflx_def)
  have thrown: "ConstructorThrows \<noteq> Constructed" by simp
  show ?thesis
    using probe_settles_within_timeout [of Constructed ?sched]
      probe_settles_within_timeout [of ConstructorThrows ?sched] nf na thrown
    by blast
qed

section \<open>The earlier revision finished on the first match\<close>

lemma earlier_deliver_settled:
  "\<not> earlier_pc_open st \<Longrightarrow> earlier_value st \<noteq> None \<Longrightarrow> earlier_deliver st e = st"
proof (cases e)
  case (Pair now sig)
  assume "\<not> earlier_pc_open st" "earlier_value st \<noteq> None"
  then show ?thesis unfolding Pair
    by (cases sig rule: final_signal.cases) (auto simp: earlier_resolve_def)
qed

lemma foldl_earlier_deliver_settled:
  "\<not> earlier_pc_open st \<Longrightarrow> earlier_value st \<noteq> None \<Longrightarrow> foldl earlier_deliver st es = st"
  by (induction es) (simp_all add: earlier_deliver_settled)

lemma foldl_earlier_deliver_ignored:
  "earlier_pc_open st \<Longrightarrow>
   \<forall>tc \<in> set tcs. \<not> (isUdpSrflx (snd tc) \<and> parse_candidate (snd tc) \<noteq> None) \<Longrightarrow>
   foldl earlier_deliver st (candidates_at tcs) = st"
  by (induction tcs) (auto simp: candidates_at_def)

text \<open>
  In the earlier revision the first candidate line that passes the UDP test and
  parses fixes the result and the time of resolution, whatever follows.
\<close>

lemma earlier_first_match_wins:
  assumes "\<forall>tc \<in> set tcs. fst tc < 5000
             \<and> \<not> (isUdpSrflx (snd tc) \<and> parse_candidate (snd tc) \<noteq> None)"
    and "t < 5000" and "isUdpSrflx c" and "parse_candidate c = Some a"
  shows "earlier_value (getMappedAddress_earlier
            (candidates_at tcs @ (t, IceCandidate (Some c)) # rest)) = Some (Some a)
         \<and> earlier_resolved_at (getMappedAddress_earlier
            (candidates_at tcs @ (t, IceCandidate (Some c)) # rest)) = Some t"
proof -
  let ?sched = "candidates_at tcs @ (t, IceCandidate (Some c)) # rest"
  let ?fin = "\<lparr>earlier_pc_open = False, earlier_value = Some (Some a), earlier_resolved_at = Some t\<rparr>"
  have times: "\<forall>tc \<in> set tcs. fst tc < 5000" using assms(1) by blast
  have tw: "takeWhile before_timeout ?sched
            = candidates_at tcs @ (t, IceCandidate (Some c)) # takeWhile before_timeout rest"
    using takeWhile_candidates_at [OF times] assms(2) by (simp add: before_timeout_def)
  have ign: "foldl earlier_deliver earlier_init (candidates_at tcs) = earlier_init"
    using assms(1) by (intro foldl_earlier_deliver_ignored) (simp_all add: earlier_init_def)
  have step: "earlier_deliver earlier_init (t, IceCandidate (Some c)) = ?fin"
    using assms(3,4) by (simp add: earlier_init_def earlier_resolve_def)
  have settled: "\<not> earlier_pc_open ?fin" "earlier_value ?fin \<noteq> None" by simp_all
  have "foldl earlier_deliver ?fin (takeWhile before_timeout rest) = ?fin"
    using settled by (rule foldl_earlier_deliver_settled)
  then have st1: "foldl earlier_deliver earlier_init (takeWhile before_timeout ?sched) = ?fin"
    unfolding tw foldl_append ign using step by simp
  have st2: "earlier_resolve 5000 None (?fin\<lparr>earlier_pc_open := False\<rparr>) = ?fin"
    by (simp add: earlier_resolve_def)
  have st3: "foldl earlier_deliver ?fin (dropWhile before_timeout ?sched) = ?fin"
    using settled by (rule foldl_earlier_deliver_settled)
  have "getMappedAddress_earlier ?sched = ?fin"
    unfolding getMappedAddress_earlier_def Let_def st1 st2 st3 ..
  then show ?thesis by simp
qed

section \<open>Properties of the public address test\<close>

lemma public_ip_wf_init: "public_ip_wf public_ip_init"
  by (simp add: public_ip_wf_def public_ip_init_def)

lemma public_ip_wf_finish: "public_ip_wf st \<Longrightarrow> public_ip_wf (public_ip_finish b st)"
  by (auto simp: public_ip_wf_def public_ip_finish_def split: if_splits)

lemma public_ip_wf_deliver: "public_ip_wf st \<Longrightarrow> public_ip_wf (public_ip_deliver st e)"
proof (cases e)
  case (Pair now sig)
  assume "public_ip_wf st"
  then show ?thesis unfolding Pair
    by (cases sig rule: final_signal.cases) (simp_all add: public_ip_wf_finish)
qed

lemma public_ip_wf_foldl: "public_ip_wf st \<Longrightarrow> public_ip_wf (foldl public_ip_deliver st es)"
  by (induction es arbitrary: st) (simp_all add: public_ip_wf_deliver)

lemma public_ip_deliver_resolved:
  "public_ip_wf st \<Longrightarrow> pub_resolved st \<Longrightarrow> public_ip_deliver st e = st"
proof (cases e)
  case (Pair now sig)
  assume "public_ip_wf st" "pub_resolved st"
  then show ?thesis unfolding Pair
    by (cases sig rule: final_signal.cases)
       (auto simp: public_ip_wf_def public_ip_finish_def split: if_splits)
qed

lemma foldl_public_ip_deliver_resolved:
  "public_ip_wf st \<Longrightarrow> pub_resolved st \<Longrightarrow> foldl public_ip_deliver st es = st"
  by (induction es) (simp_all add: public_ip_deliver_resolved)

lemma detectPublicIP_run_timer:
  "detectPublicIP_run sched =
     (let st1 = foldl public_ip_deliver public_ip_init (takeWhile before_timeout sched)
      in if pub_timeout_set st1 then public_ip_finish False st1 else st1)"
proof -
  let ?st1 = "foldl public_ip_deliver public_ip_init (takeWhile before_timeout sched)"
  let ?st2 = "if pub_timeout_set ?st1 then public_ip_finish False ?st1 else ?st1"
  have wf1: "public_ip_wf ?st1" using public_ip_wf_init by (rule public_ip_wf_foldl)
  have wf2: "public_ip_wf ?st2" using wf1 by (simp add: public_ip_wf_finish)
  have res2: "pub_resolved ?st2"
    using wf1 by (auto simp: public_ip_wf_def public_ip_finish_def split: if_splits)
  have "foldl public_ip_deliver ?st2 (dropWhile before_timeout sched) = ?st2"
    using wf2 res2 by (rule foldl_public_ip_deliver_resolved)
  then show ?thesis unfolding detectPublicIP_run_def Let_def .
qed

lemma public_ip_deliver_true:
  assumes "pub_value (public_ip_deliver st e) = Some True"
  shows "pub_value st = Some True
         \<or> (\<exists>c. snd e = IceCandidate (Some c) \<and> isUdpSrflx c \<and> \<not> isPrivateIP c)"
proof (cases e)
  case (Pair now sig)
  from assms show ?thesis unfolding Pair
    by (cases sig rule: final_signal.cases)
       (auto simp: public_ip_finish_def split: if_splits)
qed

lemma foldl_public_ip_deliver_true:
  "pub_value (foldl public_ip_deliver st es) = Some True \<Longrightarrow>
   pub_value st = Some True
   \<or> (\<exists>e \<in> set es. \<exists>c. snd e = IceCandidate (Some c) \<and> isUdpSrflx c \<and> \<not> isPrivateIP c)"
proof (induction es arbitrary: st)
  case Nil
  then show ?case by simp
next
  case (Cons e es)
  from Cons.prems have "pub_value (foldl public_ip_deliver (public_ip_deliver st e) es) = Some True"
    by simp
  then have "pub_value (public_ip_deliver st e) = Some True
      \<or> (\<exists>e \<in> set es. \<exists>c. snd e = IceCandidate (Some c) \<and> isUdpSrflx c \<and> \<not> isPrivateIP c)"
    by (rule Cons.IH)
  then show ?case
  proof
    assume "pub_value (public_ip_deliver st e) = Some True"
    then have "pub_value st = Some True
         \<or> (\<exists>c. snd e = IceCandidate (Some c) \<and> isUdpSrflx c \<and> \<not> isPrivateIP c)"
      by (rule public_ip_deliver_true)
    then show ?thesis by auto
  next
    assume "\<exists>e \<in> set es. \<exists>c. snd e = IceCandidate (Some c) \<and> isUdpSrflx c \<and> \<not> isPrivateIP c"
    then show ?thesis by auto
  qed
qed

text \<open>
  What does hold of \<open>hasPublicIP\<close>: it is true only if, before the timeout, the
  connection to the first configured server produced a UDP server-reflexive candidate
  whose line contains none of the literals of \<open>private_literals\<close>.
\<close>

lemma public_ip_only_if:
  assumes "detectPublicIP servers transport = Some True"
  shows "servers \<noteq> []
         \<and> (\<exists>e \<in> set (transport (url (hd servers))). fst e < 5000
              \<and> (\<exists>c. snd e = IceCandidate (Some c) \<and> isUdpSrflx c \<and> \<not> isPrivateIP c))"
proof (cases servers)
  case Nil
  with assms show ?thesis by simp
next
  case (Cons srv others)
  let ?sched = "transport (url srv)"
  let ?st1 = "foldl public_ip_deliver public_ip_init (takeWhile before_timeout ?sched)"
  from assms Cons have "pub_value (detectPublicIP_run ?sched) = Some True" by simp
  then have "pub_value ?st1 = Some True"
    unfolding detectPublicIP_run_timer Let_def
    by (auto simp: public_ip_finish_def split: if_splits)
  then have "pub_value public_ip_init = Some True
      \<or> (\<exists>e \<in> set (takeWhile before_timeout ?sched).
            \<exists>c. snd e = IceCandidate (Some c) \<and> isUdpSrflx c \<and> \<not> isPrivateIP c)"
    by (rule foldl_public_ip_deliver_true)
  then obtain e c where e: "e \<in> set (takeWhile before_timeout ?sched)"
      and c: "snd e = IceCandidate (Some c)" "isUdpSrflx c" "\<not> isPrivateIP c"
    by (auto simp: public_ip_init_def)
  from e have "e \<in> set ?sched" "fst e < 5000"
    by (auto dest: set_takeWhileD simp: before_timeout_def)
  with c show ?thesis unfolding Cons by auto
qed

lemma detectPublicIP_returns: "\<exists>b. detectPublicIP servers transport = Some b"
proof (cases servers)
  case Nil
  then show ?thesis by (intro exI [of _ False]) simp
next
  case (Cons srv others)
  let ?st1 = "foldl public_ip_deliver public_ip_init (takeWhile before_timeout (transport (url srv)))"
  have wf1: "public_ip_wf ?st1" using public_ip_wf_init by (rule public_ip_wf_foldl)
  then show ?thesis unfolding Cons
    by (auto simp: detectPublicIP_run_timer Let_def public_ip_wf_def public_ip_finish_def
             split: if_splits)
qed

lemma foldl_public_ip_deliver_ignored:
  "pub_pc_open st \<Longrightarrow> \<forall>tc \<in> set tcs. \<not> isUdpSrflx (snd tc) \<Longrightarrow>
   foldl public_ip_deliver st (candidates_at tcs) = st"
  by (induction tcs) (simp_all add: candidates_at_def)


lemma includes_private_literal:
  "lit \<in> set private_literals \<Longrightarrow> includes_str candidate lit \<Longrightarrow> isPrivateIP candidate"
  unfolding isPrivateIP_def list_ex_iff by blast

text \<open>
  Claim C10. The test of \<open>detectPublicIP\<close> looks for its literals anywhere in the
  candidate line. So whenever the first UDP server-reflexive candidate of the
  connection to the first server has \<open>10.\<close> somewhere in its text, the line counts as
  private and the method answers \<open>false\<close>, also when the mapped address is public,
  as 110.242.68.66 is.
\<close>

theorem substring_test_rejects_public_address:
  assumes "\<forall>tc \<in> set tcs. fst tc < 5000 \<and> \<not> isUdpSrflx (snd tc)"
    and "t < 5000"
    and "isUdpSrflx c"
    and "includes_str c ''10.''"
    and "transport (url srv) = candidates_at tcs @ (t, IceCandidate (Some c)) # rest"
  shows "isPrivateIP c \<and> detectPublicIP (srv # others) transport = Some False"
proof -
  have priv: "isPrivateIP c"
    using _ assms(4) by (rule includes_private_literal) (simp add: private_literals_def)
  have times: "\<forall>tc \<in> set tcs. fst tc < 5000" using assms(1) by blast
  have tw: "takeWhile before_timeout (transport (url srv))
            = candidates_at tcs @ (t, IceCandidate (Some c)) # takeWhile before_timeout rest"
    unfolding assms(5) using takeWhile_candidates_at [OF times] assms(2)
    by (simp add: before_timeout_def)
  have ign: "foldl public_ip_deliver public_ip_init (candidates_at tcs) = public_ip_init"
    using assms(1) by (intro foldl_public_ip_deliver_ignored) (simp_all add: public_ip_init_def)
  let ?fin = "public_ip_finish False public_ip_init"
  have step: "public_ip_deliver public_ip_init (t, IceCandidate (Some c)) = ?fin"
    using assms(3) priv by (simp add: public_ip_init_def)
  have wf: "public_ip_wf ?fin" using public_ip_wf_init by (rule public_ip_wf_finish)
  have res: "pub_resolved ?fin" by (simp add: public_ip_finish_def public_ip_init_def)
  have "foldl public_ip_deliver ?fin (takeWhile before_timeout rest) = ?fin"
    using wf res by (rule foldl_public_ip_deliver_resolved)
  then have st1: "foldl public_ip_deliver public_ip_init (takeWhile before_timeout (transport (url srv)))
             = ?fin"
    unfolding tw foldl_append ign using step by simp
  have "pub_value (detectPublicIP_run (transport (url srv))) = Some False"
    unfolding detectPublicIP_run_timer Let_def st1
    by (simp add: public_ip_finish_def public_ip_init_def)
  with priv show ?thesis by simp
qed

text \<open>
  The mapped address 110.242.68.66: the parsing block reads it from the line, the
  prefix test of \<open>getPublicIPFromStun\<close> does not call it private, the substring
  test does, and the flag is false.
\<close>

theorem substring_test_witness:
  "parse_candidate ''candidate:1 1 UDP 1685987327 110.242.68.66 37737 typ srflx''
     = Some \<lparr>ip = ''110.242.68.66'', port = 37737\<rparr>
   \<and> \<not> isPrivateIP_parsed ''110.242.68.66''
   \<and> isPrivateIP ''candidate:1 1 UDP 1685987327 110.242.68.66 37737 typ srflx''
   \<and> detectPublicIP default_stunServers
       (\<lambda>u. if u = ''stun:stun.miwifi.com:3478''
             then candidates_at [(40, ''candidate:0 1 UDP 2122252543 172.20.10.2 54321 typ host'')]
                  @ (120, IceCandidate (Some ''candidate:1 1 UDP 1685987327 110.242.68.66 37737 typ srflx''))
                  # [(300, IceCandidate None)]
             else []) = Some False"
proof -
  let ?c = "''candidate:1 1 UDP 1685987327 110.242.68.66 37737 typ srflx''"
  let ?tcs = "[(40::nat, ''candidate:0 1 UDP 2122252543 172.20.10.2 54321 typ host'')]"
  let ?transport = "\<lambda>u. if u = ''stun:stun.miwifi.com:3478''
             then candidates_at ?tcs @ (120, IceCandidate (Some ?c)) # [(300, IceCandidate None)]
             else []"
  let ?srv = "\<lparr>url = ''stun:stun.miwifi.com:3478'', host = ''stun.miwifi.com'',
       server_port = 3478, name = ''stun.miwifi.com''\<rparr>"
  have h1: "\<forall>tc \<in> set ?tcs. fst tc < 5000 \<and> \<not> isUdpSrflx (snd tc)"
    by (simp add: isUdpSrflx_def)
  have h2: "(120::nat) < 5000" by simp
  have h3: "isUdpSrflx ?c" by (simp add: isUdpSrflx_def)
  have h4: "includes_str ?c ''10.''" by simp
  have h5: "?transport (url ?srv) = candidates_at ?tcs @ (120, IceCandidate (Some ?c)) # [(300, IceCandidate None)]"
    by simp
  have parsed: "parse_candidate ?c = Some \<lparr>ip = ''110.242.68.66'', port = 37737\<rparr>"
    by (simp add: candidate_eval)
  have pub: "\<not> isPrivateIP_parsed ''110.242.68.66''"
    by (simp add: isPrivateIP_parsed_def private_prefixes_def startsWith_def)
  have servers: "default_stunServers = ?srv # tl default_stunServers"
    by (simp add: default_stunServers_def)
  from substring_test_rejects_public_address
         [where tcs = ?tcs and t = 120 and c = ?c and transport = ?transport and srv = ?srv
            and rest = "[(300, IceCandidate None)]" and others = "tl default_stunServers",
          OF h1 h2 h3 h4 h5]
  have "isPrivateIP ?c \<and> detectPublicIP default_stunServers ?transport = Some False"
    unfolding servers [symmetric] .
  with parsed pub show ?thesis by blast
qed

text \<open>
  Claim C9 fails on the code at the following inputs. A server-reflexive UDP candidate
  from the first server whose mapped address is the loopback address 127.0.0.2, or the
  unique local IPv6 address fd12:3456:789a::2, makes \<open>hasPublicIP\<close> true: the table
  of literals has \<open>127.0.0.1\<close>, \<open>fc00:\<close> and \<open>fd00:\<close> only. The test on the
  parsed address in \<open>getPublicIPFromStun\<close> rejects every address that starts with
  \<open>127.\<close>, and so calls 127.0.0.2 private.
\<close>

theorem loopback_counted_public:
  "detectPublicIP default_stunServers
       (\<lambda>u. if u = ''stun:stun.miwifi.com:3478''
             then [(120, IceCandidate (Some ''candidate:1 1 UDP 1685987327 127.0.0.2 37737 typ srflx''))]
             else []) = Some True
   \<and> parse_candidate ''candidate:1 1 UDP 1685987327 127.0.0.2 37737 typ srflx''
       = Some \<lparr>ip = ''127.0.0.2'', port = 37737\<rparr>
   \<and> isPrivateIP_parsed ''127.0.0.2''
   \<and> detectPublicIP default_stunServers
       (\<lambda>u. if u = ''stun:stun.miwifi.com:3478''
             then [(120, IceCandidate (Some ''candidate:1 1 UDP 1685987327 fd12:3456:789a::2 37737 typ srflx''))]
             else []) = Some True"
  by (simp add: default_stunServers_def detectPublicIP_run_def before_timeout_def
        public_ip_init_def public_ip_finish_def isUdpSrflx_def isPrivateIP_def
        private_literals_def candidate_eval isPrivateIP_parsed_def private_prefixes_def
        startsWith_def)

section \<open>Properties of the path-quality measurement\<close>

lemma two_decimals_100: "two_decimals 100 = 100"
  by (simp add: two_decimals_def)

lemma result_inv_failed: "result_inv (failed_result t target)"
  by (simp add: result_inv_def failed_result_def two_decimals_100)

lemma speed_inv_init: "speed_inv (speed_init t0)"
  by (simp add: speed_inv_def speed_init_def)

lemma speed_inv_finish:
  "speed_inv st \<Longrightarrow> result_inv r \<Longrightarrow> speed_inv (speed_finish r st)"
  by (auto simp: speed_inv_def speed_finish_def split: option.splits if_splits)

lemma speed_inv_timeout:
  assumes "speed_inv st"
  shows "speed_inv (speed_timeout target t0 now st)"
proof -
  have "result_inv
     \<lparr>latency = l, throughput = th,
      packetLoss = rat_of_int (round ((if sent st > 0
                  then ((rat_of_nat (sent st) - rat_of_nat (received st)) / rat_of_nat (sent st)) * 100
                  else 100) * 100)) / 100,
      connectionTime = ct,
      status = (if connectionEstablished st then success else failed),
      packetsSent = sent st, packetsReceived = received st, mappedAddress = target\<rparr>" for l th ct
    using assms by (auto simp: result_inv_def speed_inv_def two_decimals_def split: if_splits)
  then show ?thesis
    unfolding speed_timeout_def Let_def using assms by (intro speed_inv_finish)
qed

lemma speed_inv_step:
  assumes "speed_inv st"
  shows "speed_inv (speed_step target t0 st e)"
proof (cases e)
  case (Pair now ev)
  show ?thesis
  proof (cases ev)
    case Channel1Open
    with assms show ?thesis unfolding Pair
      by (auto simp: speed_inv_def dataChannel1_onopen_def split: if_splits option.splits)
  next
    case Channel1NotOpen
    with assms show ?thesis unfolding Pair
      by (auto simp: speed_inv_def split: if_splits option.splits)
  next
    case Channel2Announced
    with assms show ?thesis unfolding Pair
      by (auto simp: speed_inv_def split: if_splits option.splits)
  next
    case (IntervalTick ok)
    with assms show ?thesis unfolding Pair
      by (auto simp: speed_inv_def sendInterval_callback_def Let_def split: if_splits option.splits)
  next
    case StopSending
    with assms show ?thesis unfolding Pair
      by (auto simp: speed_inv_def split: if_splits option.splits)
  next
    case (DeliverToPc2 isArrayBuffer echo)
    with assms show ?thesis unfolding Pair
      by (auto simp: speed_inv_def dataChannel2_onmessage_def Let_def
               split: if_splits option.splits list.splits)
  next
    case LoseToPc2
    with assms show ?thesis unfolding Pair
      by (cases "to_pc2 st") (auto simp: speed_inv_def split: if_splits option.splits)
  next
    case (DeliverToPc1 isArrayBuffer)
    with assms show ?thesis unfolding Pair
      by (auto simp: speed_inv_def dataChannel1_onmessage_def
               split: if_splits option.splits list.splits)
  next
    case LoseToPc1
    with assms show ?thesis unfolding Pair
      by (auto simp: speed_inv_def split: if_splits option.splits)
  next
    case SetupRejected
    with assms show ?thesis unfolding Pair
      by (simp add: speed_inv_finish result_inv_failed)
  next
    case FinalTimeout
    with assms show ?thesis unfolding Pair
      by (simp add: speed_inv_timeout)
  qed
qed

lemma speed_inv_foldl:
  "speed_inv st \<Longrightarrow> speed_inv (foldl (speed_step target t0) st events)"
  by (induction events arbitrary: st) (simp_all add: speed_inv_step)

lemma performSpeedTest_result_inv:
  "performSpeedTest target t0 events = Some r \<Longrightarrow> result_inv r"
proof -
  assume r: "performSpeedTest target t0 events = Some r"
  have "speed_inv (foldl (speed_step target t0) (speed_init t0) events)"
    using speed_inv_init by (rule speed_inv_foldl)
  with r show ?thesis by (simp add: performSpeedTest_def speed_inv_def)
qed

lemma round_rat_numeral:
  "round (numeral a / numeral b :: rat) = (2 * numeral a + numeral b) div (2 * numeral b)"
proof -
  have "(numeral a / numeral b :: rat) + 1 / 2
        = rat_of_int (2 * numeral a + numeral b) / rat_of_int (2 * numeral b)"
    by (simp add: field_simps)
  then show ?thesis unfolding round_def by (simp only: floor_divide_of_int_eq)
qed

lemmas speed_eval =
  performSpeedTest_def speed_init_def dataChannel1_onopen_def
  sendInterval_callback_def dataChannel2_onmessage_def dataChannel1_onmessage_def speed_timeout_def
  speed_finish_def Let_def packetSize_def testDuration_def round_rat_numeral
  example_run_def example_target_def loss_summary_def upt_conv_Cons

lemma result_inv_loss_bounds:
  assumes "result_inv r"
  shows "0 \<le> packetLoss r \<and> packetLoss r \<le> 100"
proof -
  let ?x = "if packetsSent r > 0
             then (rat_of_nat (packetsSent r) - rat_of_nat (packetsReceived r))
                    / rat_of_nat (packetsSent r) * 100
             else 100"
  from assms have le: "packetsReceived r \<le> packetsSent r"
    and loss: "packetLoss r = two_decimals ?x"
    by (simp_all add: result_inv_def)
  have x0: "0 \<le> ?x" using le by (simp add: zero_le_divide_iff)
  have x100: "?x \<le> 100"
  proof (cases "packetsSent r > 0")
    case True
    have "(rat_of_nat (packetsSent r) - rat_of_nat (packetsReceived r)) / rat_of_nat (packetsSent r) \<le> 1"
      using True by (simp add: divide_le_eq)
    then have "(rat_of_nat (packetsSent r) - rat_of_nat (packetsReceived r))
                 / rat_of_nat (packetsSent r) * 100 \<le> 1 * 100"
      by (rule mult_right_mono) simp
    then show ?thesis using True by (simp only: if_True mult_1)
  next
    case False
    then show ?thesis by simp
  qed
  have "round (0 * 100 :: rat) \<le> round (?x * 100)"
    using x0 by (intro round_mono mult_right_mono) simp_all
  then have r0: "0 \<le> round (?x * 100)" by simp
  have "round (?x * 100) \<le> round (100 * 100 :: rat)"
    using x100 by (intro round_mono mult_right_mono) simp_all
  then have r100: "round (?x * 100) \<le> 10000" by simp
  from r0 have "0 \<le> two_decimals ?x" unfolding two_decimals_def by simp
  moreover have "rat_of_int (round (?x * 100)) \<le> rat_of_int 10000"
    using r100 by (simp only: of_int_le_iff)
  then have "two_decimals ?x \<le> 100" unfolding two_decimals_def by simp
  ultimately show ?thesis unfolding loss by simp
qed

lemma speed_step_promise_kept:
  "promise st = Some r \<Longrightarrow> promise (speed_step target t0 st e) = Some r"
proof (cases e)
  case (Pair now ev)
  assume "promise st = Some r"
  then show ?thesis unfolding Pair
    by (cases ev)
       (auto simp: dataChannel1_onopen_def sendInterval_callback_def dataChannel2_onmessage_def
             dataChannel1_onmessage_def speed_timeout_def speed_finish_def Let_def
             split: list.splits)
qed

lemma foldl_speed_step_promise_kept:
  "promise st = Some r \<Longrightarrow> promise (foldl (speed_step target t0) st events) = Some r"
  by (induction events arbitrary: st) (simp_all add: speed_step_promise_kept)

lemma speed_step_settles:
  assumes "speed_inv st" and "ev = FinalTimeout \<or> ev = SetupRejected"
  shows "\<exists>r. promise (speed_step target t0 st (now, ev)) = Some r"
  using assms
  by (auto simp: speed_inv_def speed_timeout_def speed_finish_def Let_def split: option.splits)

lemma performSpeedTest_settles:
  assumes "\<exists>e \<in> set events. snd e = FinalTimeout \<or> snd e = SetupRejected"
  shows "\<exists>r. performSpeedTest target t0 events = Some r"
proof -
  from assms obtain e where e: "e \<in> set events" "snd e = FinalTimeout \<or> snd e = SetupRejected"
    by blast
  then obtain pre post where split: "events = pre @ e # post"
    by (meson split_list)
  let ?st = "foldl (speed_step target t0) (speed_init t0) pre"
  have "speed_inv ?st" using speed_inv_init by (rule speed_inv_foldl)
  then have "\<exists>r. promise (speed_step target t0 ?st (fst e, snd e)) = Some r"
    using e(2) by (rule speed_step_settles)
  then obtain r where "promise (speed_step target t0 ?st e) = Some r" by auto
  then have "promise (foldl (speed_step target t0) (speed_step target t0 ?st e) post) = Some r"
    by (rule foldl_speed_step_promise_kept)
  then show ?thesis unfolding performSpeedTest_def split by simp
qed

text \<open>
  Claim C4. Events of a speed test may come in any order and number: openings,
  ticks of the send timer with a send that succeeds or throws, deliveries and losses
  in both directions, the rejection of the connection setup, the timers. Every result
  that the promise is resolved with has \<open>packetsReceived \<le> packetsSent\<close> and a
  packet loss between 0 and 100; and the promise is resolved as soon as the final
  timer has fired or the setup was rejected.
\<close>

theorem path_quality_bounds:
  "(\<forall>r. performSpeedTest target t0 events = Some r \<longrightarrow>
        packetsReceived r \<le> packetsSent r \<and> 0 \<le> packetLoss r \<and> packetLoss r \<le> 100)
   \<and> ((\<exists>e \<in> set events. snd e = FinalTimeout \<or> snd e = SetupRejected) \<longrightarrow>
        (\<exists>r. performSpeedTest target t0 events = Some r))"
proof -
  have "packetsReceived r \<le> packetsSent r \<and> 0 \<le> packetLoss r \<and> packetLoss r \<le> 100"
    if "performSpeedTest target t0 events = Some r" for r
  proof -
    from that have inv: "result_inv r" by (rule performSpeedTest_result_inv)
    then have "packetsReceived r \<le> packetsSent r" by (simp add: result_inv_def)
    with result_inv_loss_bounds [OF inv] show ?thesis by simp
  qed
  then show ?thesis using performSpeedTest_settles by blast
qed

text \<open>Three packets sent, two of them delivered and echoed.\<close>

theorem path_quality_witness:
  "\<exists>r. performSpeedTest example_target 0 (example_run 3 2 2) = Some r
       \<and> loss_summary r = (3, 2, 3333 / 100, success)
       \<and> packetsReceived r \<le> packetsSent r \<and> 0 \<le> packetLoss r \<and> packetLoss r \<le> 100"
proof -
  have "map_option loss_summary (performSpeedTest example_target 0 (example_run 3 2 2))
        = Some (3, 2, 3333 / 100, success)"
    by (simp add: speed_eval)
  then obtain r where r: "performSpeedTest example_target 0 (example_run 3 2 2) = Some r"
    and s: "loss_summary r = (3, 2, 3333 / 100, success)"
    by auto
  from path_quality_bounds [of example_target 0 "example_run 3 2 2"] r
  have "packetsReceived r \<le> packetsSent r \<and> 0 \<le> packetLoss r \<and> packetLoss r \<le> 100"
    by blast
  with r s show ?thesis by blast
qed

lemma two_decimals_5: "two_decimals 5 = 5"
  by (simp add: two_decimals_def)

text \<open>
  Claim C5 as stated fails, in two ways. First, the count \<open>packets.received\<close> is
  incremented when a packet reaches the second connection, not when its echo comes
  back: with 80 packets sent, all 80 delivered and echoed, and 76 echoes received,
  the reported loss is 0, not 5. Second, the reported value is rounded to two
  decimals: with 3 packets sent and 2 received it is 33.33, not 100/3.
\<close>

theorem packet_loss_counterexample:
  "map_option loss_summary (performSpeedTest example_target 0 (example_run 80 80 76))
     = Some (80, 80, 0, success)
   \<and> map_option loss_summary (performSpeedTest example_target 0 (example_run 3 2 2))
     = Some (3, 2, 3333 / 100, success)
   \<and> (3333 / 100 :: rat) \<noteq> (3 - 2) / 3 * 100"
proof -
  have A: "map_option loss_summary (performSpeedTest example_target 0 (example_run 80 80 76))
     = Some (80, 80, 0, success)"
    by (simp add: speed_eval)
  have B: "map_option loss_summary (performSpeedTest example_target 0 (example_run 3 2 2))
     = Some (3, 2, 3333 / 100, success)"
    by (simp add: speed_eval)
  have C: "(3333 / 100 :: rat) \<noteq> (3 - 2) / 3 * 100" by simp
  from A B C show ?thesis by blast
qed

text \<open>
  Claim C5, amended. Every result reports as packet loss the value
  \<open>(sent - received) / sent * 100\<close> rounded to two decimals when at least one packet
  was sent, and 100 when none was, where \<open>received\<close> counts the packets delivered to the
  second connection and is not changed by an echo; in particular a result with 80
  packets sent and 76 received has packet loss 5 and status \<open>success\<close>.
\<close>

theorem reported_packet_loss:
  "(\<forall>r. performSpeedTest target t0 events = Some r \<longrightarrow>
        packetLoss r =
          two_decimals
            (if packetsSent r > 0
             then (rat_of_nat (packetsSent r) - rat_of_nat (packetsReceived r))
                    / rat_of_nat (packetsSent r) * 100
             else 100)
        \<and> (packetsSent r = 80 \<and> packetsReceived r = 76 \<longrightarrow>
             packetLoss r = 5 \<and> status r = success))
   \<and> received (speed_step target t0 st (now, DeliverToPc1 b)) = received st
   \<and> (to_pc2 st = d # rest \<and> \<not> closed st \<and> dataChannel2_set st \<and> byteLength d \<ge> 12 \<longrightarrow>
        received (speed_step target t0 st (now, DeliverToPc2 True echo)) = received st + 1)"
proof -
  have A: "packetLoss r =
          two_decimals
            (if packetsSent r > 0
             then (rat_of_nat (packetsSent r) - rat_of_nat (packetsReceived r))
                    / rat_of_nat (packetsSent r) * 100
             else 100)
        \<and> (packetsSent r = 80 \<and> packetsReceived r = 76 \<longrightarrow>
             packetLoss r = 5 \<and> status r = success)"
    if "performSpeedTest target t0 events = Some r" for r
  proof -
    from that have inv: "result_inv r" by (rule performSpeedTest_result_inv)
    then have loss: "packetLoss r =
          two_decimals
            (if packetsSent r > 0
             then (rat_of_nat (packetsSent r) - rat_of_nat (packetsReceived r))
                    / rat_of_nat (packetsSent r) * 100
             else 100)"
      by (simp add: result_inv_def)
    have "packetLoss r = 5 \<and> status r = success"
      if "packetsSent r = 80 \<and> packetsReceived r = 76"
    proof -
      from that loss have "packetLoss r = two_decimals 5" by simp
      moreover from that inv have "status r = success" by (simp add: result_inv_def)
      ultimately show ?thesis by (simp add: two_decimals_5)
    qed
    with loss show ?thesis by blast
  qed
  have B: "received (speed_step target t0 st (now, DeliverToPc1 b)) = received st"
    by (simp add: dataChannel1_onmessage_def split: list.split)
  have C: "to_pc2 st = d # rest \<and> \<not> closed st \<and> dataChannel2_set st \<and> byteLength d \<ge> 12 \<longrightarrow>
        received (speed_step target t0 st (now, DeliverToPc2 True echo)) = received st + 1"
    by (simp add: dataChannel2_onmessage_def Let_def)
  from A B C show ?thesis by blast
qed

text \<open>Scenario E: 80 packets sent, 76 of them delivered to the second connection.\<close>

theorem reported_packet_loss_witness:
  "\<exists>r. performSpeedTest example_target 0 (example_run 80 76 76) = Some r
       \<and> loss_summary r = (80, 76, 5, success)"
proof -
  have "map_option (\<lambda>r. (packetsSent r, packetsReceived r))
          (performSpeedTest example_target 0 (example_run 80 76 76)) = Some (80, 76)"
    by (simp add: speed_eval)
  then obtain r where r: "performSpeedTest example_target 0 (example_run 80 76 76) = Some r"
    and s: "packetsSent r = 80" "packetsReceived r = 76"
    by auto
  from reported_packet_loss [of example_target 0 "example_run 80 76 76"] r s
  have "packetLoss r = 5 \<and> status r = success" by blast
  with r s show ?thesis by (simp add: loss_summary_def)
qed

end
